theory Spec2Isabelle
  imports Main
begin

section \<open>Python strings\<close>

text \<open>
  A Python \<open>str\<close> is modelled as a HOL \<open>string\<close>; a \<open>char\<close> stands for a code
  point below 256. The string methods used by \<open>content_fetcher.py\<close> are written
  out on that range.
\<close>

text \<open>The characters \<open>str.strip()\<close> and \<open>str.split()\<close> treat as whitespace:
  U+0009..U+000D, U+001C..U+0020, U+0085 and U+00A0.\<close>

definition is_space :: "char \<Rightarrow> bool" where
  "is_space c =
     (let n = (of_char c :: nat)
      in (9 \<le> n \<and> n \<le> 13) \<or> (28 \<le> n \<and> n \<le> 32) \<or> n = 133 \<or> n = 160)"

text \<open>\<open>str.lower()\<close>: A..Z and the Latin-1 capitals U+00C0..U+00DE (U+00D7 is the
  multiplication sign) move up by 32; every other code point is kept.\<close>

definition lower_char :: "char \<Rightarrow> char" where
  "lower_char c =
     (let n = (of_char c :: nat)
      in if (65 \<le> n \<and> n \<le> 90) \<or> (192 \<le> n \<and> n \<le> 222 \<and> n \<noteq> 215)
         then char_of (n + 32) else c)"

definition lower :: "string \<Rightarrow> string" where
  "lower s = map lower_char s"

text \<open>\<open>s.startswith(p)\<close>.\<close>

fun startswith :: "string \<Rightarrow> string \<Rightarrow> bool" where
  "startswith s [] = True"
| "startswith [] (p # ps) = False"
| "startswith (c # cs) (p # ps) = (c = p \<and> startswith cs ps)"

text \<open>\<open>sub in s\<close> on strings: \<open>sub\<close> occurs in \<open>s\<close> as a contiguous block.\<close>

fun contains :: "string \<Rightarrow> string \<Rightarrow> bool" where
  "contains sub [] = (sub = [])"
| "contains sub (c # cs) = (startswith (c # cs) sub \<or> contains sub cs)"

text \<open>\<open>s.strip()\<close> and \<open>s.rstrip("/")\<close>.\<close>

definition rstrip_with :: "(char \<Rightarrow> bool) \<Rightarrow> string \<Rightarrow> string" where
  "rstrip_with P s = rev (dropWhile P (rev s))"

definition strip :: "string \<Rightarrow> string" where
  "strip s = rstrip_with is_space (dropWhile is_space s)"

text \<open>\<open>s.split()\<close> without arguments: the maximal blocks of characters that are
  not whitespace.\<close>

function split_ws :: "string \<Rightarrow> string list" where
  "split_ws [] = []"
| "split_ws (c # cs) =
     (if is_space c then split_ws cs
      else (c # takeWhile (\<lambda>x. \<not> is_space x) cs)
             # split_ws (dropWhile (\<lambda>x. \<not> is_space x) cs))"
  by pat_completeness auto
termination
proof (relation "measure length")
  show "wf (measure length)" by simp
next
  fix c :: char and cs :: string
  show "(cs, c # cs) \<in> measure length" by simp
next
  fix c :: char and cs :: string
  show "(dropWhile (\<lambda>x. \<not> is_space x) cs, c # cs) \<in> measure length"
    using length_dropWhile_le [of "\<lambda>x. \<not> is_space x" cs] by simp
qed

text \<open>\<open>s.split(sep)\<close> for a separator of one character: never an empty list.\<close>

fun split_on :: "char \<Rightarrow> string \<Rightarrow> string list" where
  "split_on sep [] = [[]]"
| "split_on sep (c # cs) =
     (if c = sep then [] # split_on sep cs
      else (case split_on sep cs of
              [] \<Rightarrow> [[c]]
            | w # ws \<Rightarrow> (c # w) # ws))"

text \<open>\<open>sep.join(parts)\<close>.\<close>

fun join :: "string \<Rightarrow> string list \<Rightarrow> string" where
  "join sep [] = []"
| "join sep [x] = x"
| "join sep (x # y # ys) = x @ sep @ join sep (y # ys)"

text \<open>\<open>re.sub(r"\n{3,}", "\n\n", s)\<close>: scanning from the left, a block of three or
  more line feeds is matched greedily (the whole block) and replaced by two; any
  other character is copied.\<close>

definition is_nl :: "char \<Rightarrow> bool" where
  "is_nl c = (c = CHR 0x0A)"

function collapse_newlines :: "string \<Rightarrow> string" where
  "collapse_newlines [] = []"
| "collapse_newlines (c # cs) =
     (if is_nl c \<and> 2 \<le> length (takeWhile is_nl cs)
      then CHR 0x0A # CHR 0x0A # collapse_newlines (dropWhile is_nl cs)
      else c # collapse_newlines cs)"
  by pat_completeness auto
termination
proof (relation "measure length")
  show "wf (measure length)" by simp
next
  fix c :: char and cs :: string
  show "(dropWhile is_nl cs, c # cs) \<in> measure length"
    using length_dropWhile_le [of is_nl cs] by simp
next
  fix c :: char and cs :: string
  show "(cs, c # cs) \<in> measure length" by simp
qed

section \<open>The parse tree\<close>

text \<open>
  The tree BeautifulSoup builds. A \<open>Tag\<close> has a name, its attributes and its
  contents. A string of the tree is an object of one of the string classes of
  bs4: plain text is a NavigableString; the text inside a script, style,
  template, rt or rp element is made of the class of that container. The
  BeautifulSoup object itself is the \<open>Tag\<close> at the root.
\<close>

datatype string_class =
    NavigableString
  | CData
  | Comment
  | Declaration
  | Doctype
  | ProcessingInstruction
  | Script
  | Stylesheet
  | TemplateString
  | RubyTextString
  | RubyParenthesisString

datatype node =
    Str string_class string
  | Tag string "(string \<times> string) list" "node list"

abbreviation Text :: "string \<Rightarrow> node" where
  "Text s \<equiv> Str NavigableString s"

text \<open>\<open>tag.descendants\<close>: every node below the tag, in document order.\<close>

fun descendants :: "node \<Rightarrow> node list" where
  "descendants (Tag nm at cs) = concat (map (\<lambda>c. c # descendants c) cs)"
| "descendants (Str k s) = []"

fun is_tag :: "node \<Rightarrow> bool" where
  "is_tag (Tag nm at cs) = True"
| "is_tag n = False"

fun named :: "string \<Rightarrow> node \<Rightarrow> bool" where
  "named x (Tag nm at cs) = (nm = x)"
| "named x n = False"

fun get_attr :: "string \<Rightarrow> node \<Rightarrow> string option" where
  "get_attr k (Tag nm at cs) = map_of at k"
| "get_attr k n = None"

text \<open>\<open>tag.find(name)\<close>, which is also what \<open>soup.title\<close> and \<open>soup.body\<close> call:
  the first tag of that name below the receiver.\<close>

definition find_tag :: "string \<Rightarrow> node \<Rightarrow> node option" where
  "find_tag x n = List.find (named x) (descendants n)"

text \<open>\<open>tag.find_all([names])\<close>.\<close>

definition find_all :: "string list \<Rightarrow> node \<Rightarrow> node list" where
  "find_all xs n = filter (\<lambda>d. list_ex (\<lambda>x. named x d) xs) (descendants n)"

text \<open>\<open>tag.find_all("a", href=True)\<close>: the anchors that carry an href attribute.\<close>

definition find_all_a_href :: "node \<Rightarrow> node list" where
  "find_all_a_href n =
     filter (\<lambda>d. named ''a'' d \<and> get_attr ''href'' d \<noteq> None) (descendants n)"

text \<open>The selectors of \<open>CONTENT_SELECTORS\<close> are of three shapes: \<open>.c\<close> matches a tag
  whose class attribute lists \<open>c\<close>, \<open>#i\<close> a tag whose id is \<open>i\<close>, and a bare name
  a tag of that name.\<close>

definition matches :: "string \<Rightarrow> node \<Rightarrow> bool" where
  "matches sel n =
     (is_tag n \<and>
      (case sel of
         [] \<Rightarrow> False
       | c # rest \<Rightarrow>
           if c = CHR ''.'' then
             (case get_attr ''class'' n of
                None \<Rightarrow> False
              | Some v \<Rightarrow> rest \<in> set (split_ws v))
           else if c = CHR ''#'' then get_attr ''id'' n = Some rest
           else named sel n))"

text \<open>\<open>soup.select_one(selector)\<close>: the first match in document order.\<close>

definition select_one :: "string \<Rightarrow> node \<Rightarrow> node option" where
  "select_one sel n = List.find (matches sel) (descendants n)"

text \<open>\<open>tag.get_text(separator, strip=True)\<close>. The strings the receiver is
  interested in are those of the class of its own name when it is a script,
  style, template, rt or rp tag, and the NavigableString and CData objects
  otherwise. Every such string below the tag is stripped, the empty ones are
  left out, and the rest is joined.\<close>

fun tag_name :: "node \<Rightarrow> string" where
  "tag_name (Tag nm at cs) = nm"
| "tag_name n = []"

definition interesting_string_types :: "string \<Rightarrow> string_class list" where
  "interesting_string_types nm =
     (if nm = ''rt'' then [RubyTextString]
      else if nm = ''rp'' then [RubyParenthesisString]
      else if nm = ''style'' then [Stylesheet]
      else if nm = ''script'' then [Script]
      else if nm = ''template'' then [TemplateString]
      else [NavigableString, CData])"

fun stripped_string :: "string_class list \<Rightarrow> node \<Rightarrow> string list" where
  "stripped_string types (Str k s) =
     (if k \<in> set types \<and> strip s \<noteq> [] then [strip s] else [])"
| "stripped_string types n = []"

definition all_strings :: "node \<Rightarrow> string list" where
  "all_strings n =
     concat (map (stripped_string (interesting_string_types (tag_name n))) (descendants n))"

definition get_text :: "string \<Rightarrow> node \<Rightarrow> string" where
  "get_text sep n = join sep (all_strings n)"

section \<open>Requests and responses\<close>

text \<open>
  The libraries the module calls are parameters of the model: the HTTP transport
  (\<open>requests.get\<close> with its 20 second timeout), the HTML parser
  (\<open>BeautifulSoup(markup, "html.parser")\<close>) and \<open>urllib.parse.urlparse\<close>.
  \<open>requests.get\<close> either raises, and \<open>Raised\<close> carries \<open>str(e)\<close>, or hands back a
  response. The parser raises on some markup (ParserRejectedMarkup): that is
  \<open>Inl\<close> of the exception. \<open>urlparse\<close> raises ValueError on some inputs: that is
  \<open>None\<close>.
\<close>

datatype exn = ValueError | ParserRejectedMarkup | OtherError string

type_synonym headers = "(string \<times> string) list"

record response =
  status_code :: nat
  reason :: string
  resp_url :: string
  resp_text :: string

datatype attempt = Raised string | Responded response

record parse_result =
  netloc :: string
  path :: string

record library =
  http_get :: "string \<Rightarrow> headers \<Rightarrow> attempt"
  html_parser :: "string \<Rightarrow> exn + node"
  urlparse :: "string \<Rightarrow> parse_result option"

text \<open>Decimal digits of a status code, for the message of \<open>raise_for_status\<close>.\<close>

function show_nat :: "nat \<Rightarrow> string" where
  "show_nat n =
     (if n < 10 then [char_of (48 + n)]
      else show_nat (n div 10) @ [char_of (48 + n mod 10)])"
  by pat_completeness auto
termination
  by (relation "measure id") auto

text \<open>\<open>resp.raise_for_status()\<close>: an HTTPError for a status from 400 to 599, with
  the message requests builds; \<open>None\<close> when nothing is raised.\<close>

definition raise_for_status :: "response \<Rightarrow> string option" where
  "raise_for_status r =
     (if 400 \<le> status_code r \<and> status_code r < 500
      then Some (show_nat (status_code r) @ '' Client Error: '' @ reason r
                 @ '' for url: '' @ resp_url r)
      else if 500 \<le> status_code r \<and> status_code r < 600
      then Some (show_nat (status_code r) @ '' Server Error: '' @ reason r
                 @ '' for url: '' @ resp_url r)
      else None)"

section \<open>content_fetcher.py\<close>

definition HEADER_SETS :: "headers list" where
  "HEADER_SETS =
     [[(''User-Agent'',
        ''Mozilla/5.0 (compatible; BlogRevivalBot/1.0; +https://airanking.com)'')],
      [(''User-Agent'',
        ''Mozilla/5.0 (Windows NT 10.0; Win64; x64) ''
        @ ''AppleWebKit/537.36 (KHTML, like Gecko) ''
        @ ''Chrome/124.0.0.0 Safari/537.36''),
       (''Accept'',
        ''text/html,application/xhtml+xml,application/xml;q=0.9,*/*;q=0.8''),
       (''Accept-Language'', ''en-US,en;q=0.9'')]]"

definition CONTENT_SELECTORS :: "string list" where
  "CONTENT_SELECTORS =
     [''.post-content'', ''.entry-content'', ''.post-body'', ''.article-body'',
      ''.blog-post'', ''.single-post'', ''#content'', ''.content'', ''article'',
      ''main'']"

definition MIN_CONTENT_WORDS :: nat where
  "MIN_CONTENT_WORDS = 100"

definition block_signals :: "string list" where
  "block_signals =
     [''just a moment'', ''checking your browser'', ''cf-challenge'',
      ''challenge-platform'']"

definition is_blocked_page :: "string \<Rightarrow> bool" where
  "is_blocked_page html =
     (let lowered = lower (take 5000 html)
      in list_ex (\<lambda>s. contains s lowered) block_signals)"

definition cloudflare_reason :: string where
  "cloudflare_reason = ''Cloudflare blocked the request (challenge page returned)''"

definition generic_reason :: string where
  "generic_reason = ''Failed to fetch the page''"

text \<open>The loop over the header sets (lines 52 to 63). Its state is the pair of
  \<open>response\<close> and \<open>last_error\<close>; \<open>get\<close> is \<open>requests.get\<close> at the URL.\<close>

fun fetch_loop ::
  "(headers \<Rightarrow> attempt) \<Rightarrow> headers list \<Rightarrow> string option
     \<Rightarrow> response option \<times> string option" where
  "fetch_loop get [] last_error = (None, last_error)"
| "fetch_loop get (h # hs) last_error =
     (case get h of
        Raised msg \<Rightarrow> fetch_loop get hs (Some msg)
      | Responded resp \<Rightarrow>
          (case raise_for_status resp of
             Some msg \<Rightarrow> fetch_loop get hs (Some msg)
           | None \<Rightarrow>
               if is_blocked_page (resp_text resp)
               then fetch_loop get hs (Some cloudflare_reason)
               else (Some resp, last_error)))"

text \<open>\<open>last_error or "Failed to fetch the page"\<close>: \<open>None\<close> and the empty string are
  both false in Python.\<close>

definition or_default :: "string option \<Rightarrow> string \<Rightarrow> string" where
  "or_default x d = (case x of None \<Rightarrow> d | Some s \<Rightarrow> if s = [] then d else s)"

text \<open>The values the returned dict holds, and the dict itself with its keys in
  insertion order.\<close>

datatype pyval =
    PNone
  | PStr string
  | PInt nat
  | PList "pyval list"
  | PDict "(string \<times> pyval) list"

type_synonym pydict = "(string \<times> pyval) list"

text \<open>Lines 70 to 76.\<close>

definition extract_title :: "node \<Rightarrow> string" where
  "extract_title soup =
     (case find_tag ''h1'' soup of
        Some h1 \<Rightarrow> get_text [] h1
      | None \<Rightarrow>
          (case find_tag ''title'' soup of
             Some t \<Rightarrow> get_text [] t
           | None \<Rightarrow> []))"

text \<open>Lines 79 to 88: \<open>words\<close> is \<open>len(candidate.get_text(strip=True).split())\<close>.\<close>

definition words :: "node \<Rightarrow> nat" where
  "words candidate = length (split_ws (get_text [] candidate))"

fun select_content :: "string list \<Rightarrow> node \<Rightarrow> node option" where
  "select_content [] soup = None"
| "select_content (selector # rest) soup =
     (case select_one selector soup of
        Some candidate \<Rightarrow>
          if MIN_CONTENT_WORDS \<le> words candidate then Some candidate
          else select_content rest soup
      | None \<Rightarrow> select_content rest soup)"

definition find_content_area :: "node \<Rightarrow> node" where
  "find_content_area soup =
     (case select_content CONTENT_SELECTORS soup of
        Some content_area \<Rightarrow> content_area
      | None \<Rightarrow>
          (case find_tag ''body'' soup of
             Some body \<Rightarrow> body
           | None \<Rightarrow> soup))"

text \<open>Lines 91 to 93.\<close>

definition heading_dict :: "node \<Rightarrow> pyval" where
  "heading_dict tag =
     PDict [(''level'', PStr (tag_name tag)), (''text'', PStr (get_text [] tag))]"

definition extract_headings :: "node \<Rightarrow> pyval list" where
  "extract_headings content_area =
     map heading_dict (find_all [''h2'', ''h3''] content_area)"

text \<open>Lines 103 to 115. A link is the pair of its text and its href; one anchor
  is one step of the loop over the two lists. The anchors come from
  \<open>find_all("a", href=True)\<close>, so \<open>a["href"]\<close> is there and the branch for a
  missing href is never taken.\<close>

type_synonym link = "string \<times> string"

definition link_step :: "string \<Rightarrow> link list \<times> link list \<Rightarrow> node \<Rightarrow> link list \<times> link list" where
  "link_step domain acc a =
     (case get_attr ''href'' a of
        None \<Rightarrow> acc
      | Some href \<Rightarrow>
          (let txt = get_text [] a
           in if href = [] \<or> startswith href ''#'' \<or> startswith href ''mailto:''
              then acc
              else if domain \<noteq> [] \<and> contains domain href
              then (fst acc @ [(txt, href)], snd acc)
              else if startswith href ''/''
              then (fst acc @ [(txt, href)], snd acc)
              else if startswith href ''http''
              then (fst acc, snd acc @ [(txt, href)])
              else acc))"

definition extract_links :: "string \<Rightarrow> node \<Rightarrow> link list \<times> link list" where
  "extract_links domain content_area =
     foldl (link_step domain) ([], []) (find_all_a_href content_area)"

definition link_dict :: "link \<Rightarrow> pyval" where
  "link_dict l = PDict [(''text'', PStr (fst l)), (''href'', PStr (snd l))]"

text \<open>Lines 118 to 121.\<close>

definition extract_body_text :: "node \<Rightarrow> string" where
  "extract_body_text content_area =
     collapse_newlines (get_text [CHR 0x0A] content_area)"

text \<open>Lines 125 and 126, on the path \<open>urlparse\<close> gives.\<close>

definition slug_of_path :: "string \<Rightarrow> string" where
  "slug_of_path p =
     (let pth = rstrip_with (\<lambda>c. c = CHR ''/'') p
      in if CHR ''/'' \<in> set pth then last (split_on CHR ''/'' pth)
         else if pth = [] then ''post'' else pth)"

text \<open>Lines 68 to 138, once a response was accepted. The parser is called
  outside any try block (line 68): an exception it raises leaves the function.
  The first \<open>urlparse\<close> (line 99) is inside a try block and leaves \<open>domain\<close> empty
  when it raises; the second (line 125) is not, and its ValueError leaves the
  function.\<close>

definition extract_post :: "library \<Rightarrow> string \<Rightarrow> string \<Rightarrow> exn + pydict" where
  "extract_post lib markup url =
     (case html_parser lib markup of
        Inl e \<Rightarrow> Inl e
      | Inr soup \<Rightarrow>
          (let title = extract_title soup;
               content_area = find_content_area soup;
               headings = extract_headings content_area;
               domain = (case urlparse lib url of None \<Rightarrow> [] | Some u \<Rightarrow> netloc u);
               links = extract_links domain content_area;
               body_text = extract_body_text content_area;
               word_count = length (split_ws body_text)
           in case urlparse lib url of
                None \<Rightarrow> Inl ValueError
              | Some u \<Rightarrow>
                  Inr [(''url'', PStr url),
                       (''slug'', PStr (slug_of_path (path u))),
                       (''title'', PStr title),
                       (''headings'', PList headings),
                       (''body_text'', PStr body_text),
                       (''internal_links'', PList (map link_dict (fst links))),
                       (''external_links'', PList (map link_dict (snd links))),
                       (''word_count'', PInt word_count),
                       (''error'', PNone)]))"

text \<open>\<open>fetch_post\<close> over any list of header sets, and at the list of the module.\<close>

definition fetch_post_with :: "library \<Rightarrow> headers list \<Rightarrow> string \<Rightarrow> exn + pydict" where
  "fetch_post_with lib header_sets url =
     (case fetch_loop (http_get lib url) header_sets None of
        (None, last_error) \<Rightarrow>
          Inr [(''error'', PStr (or_default last_error generic_reason)),
               (''url'', PStr url)]
      | (Some resp, last_error) \<Rightarrow> extract_post lib (resp_text resp) url)"

definition fetch_post :: "library \<Rightarrow> string \<Rightarrow> exn + pydict" where
  "fetch_post lib url = fetch_post_with lib HEADER_SETS url"

section \<open>Notions for the statements\<close>

text \<open>The slug as the specification words it: one trailing slash is removed from
  the path, the slug is what follows the last slash, and \<open>post\<close> when nothing is
  left of the path.\<close>

definition strip_single_slash :: "string \<Rightarrow> string" where
  "strip_single_slash p = (if p \<noteq> [] \<and> last p = CHR ''/'' then butlast p else p)"

definition after_last_slash :: "string \<Rightarrow> string" where
  "after_last_slash s = rev (takeWhile (\<lambda>c. c \<noteq> CHR ''/'') (rev s))"

definition slug_claimed :: "string \<Rightarrow> string" where
  "slug_claimed p =
     (let q = strip_single_slash p
      in if q = [] then ''post'' else after_last_slash q)"

text \<open>The same with every trailing slash removed.\<close>

definition slug_all_slashes :: "string \<Rightarrow> string" where
  "slug_all_slashes p =
     (let q = rstrip_with (\<lambda>c. c = CHR ''/'') p
      in if q = [] then ''post'' else after_last_slash q)"

definition endswith :: "string \<Rightarrow> string \<Rightarrow> bool" where
  "endswith s suffix = startswith (rev s) (rev suffix)"

text \<open>The fate of one profile: the reason the loop records when it rejects the
  attempt, \<open>None\<close> when it accepts the response.\<close>

definition rejection :: "attempt \<Rightarrow> string option" where
  "rejection a =
     (case a of
        Raised msg \<Rightarrow> Some msg
      | Responded resp \<Rightarrow>
          (case raise_for_status resp of
             Some msg \<Rightarrow> Some msg
           | None \<Rightarrow>
               if is_blocked_page (resp_text resp) then Some cloudflare_reason
               else None))"

definition all_rejected :: "(headers \<Rightarrow> attempt) \<Rightarrow> headers list \<Rightarrow> bool" where
  "all_rejected get hs = list_all (\<lambda>h. rejection (get h) \<noteq> None) hs"

text \<open>The reasons recorded over a list of profiles, in order, and the error
  string as the specification words it: the most recently recorded reason, or
  the generic one when none was recorded.\<close>

definition reasons :: "(headers \<Rightarrow> attempt) \<Rightarrow> headers list \<Rightarrow> string list" where
  "reasons get hs = List.map_filter (\<lambda>h. rejection (get h)) hs"

definition claimed_error :: "(headers \<Rightarrow> attempt) \<Rightarrow> headers list \<Rightarrow> string" where
  "claimed_error get hs =
     (case rev (reasons get hs) of [] \<Rightarrow> generic_reason | r # rs \<Rightarrow> r)"

text \<open>The error string as the code gives it: the generic reason also stands in
  for a most recent reason that is the empty string.\<close>

definition reported_error :: "(headers \<Rightarrow> attempt) \<Rightarrow> headers list \<Rightarrow> string" where
  "reported_error get hs =
     (if claimed_error get hs = [] then generic_reason else claimed_error get hs)"

text \<open>The keys of the record of a failed fetch, and of an extracted post.\<close>

definition failure_keys :: "string list" where
  "failure_keys = [''error'', ''url'']"

definition success_keys :: "string list" where
  "success_keys =
     [''url'', ''slug'', ''title'', ''headings'', ''body_text'', ''internal_links'',
      ''external_links'', ''word_count'', ''error'']"







text \<open>The body text as the specification words it: the text of the region with
  line feeds at the boundaries of its block elements only, each piece trimmed,
  then the blocks of line feeds collapsed. The text between two block
  boundaries, inline elements included, is one piece.\<close>

definition block_tags :: "string list" where
  "block_tags =
     [''address'', ''article'', ''aside'', ''blockquote'', ''body'', ''br'', ''dd'',
      ''details'', ''div'', ''dl'', ''dt'', ''fieldset'', ''figcaption'', ''figure'',
      ''footer'', ''form'', ''h1'', ''h2'', ''h3'', ''h4'', ''h5'', ''h6'', ''header'',
      ''hr'', ''html'', ''li'', ''main'', ''nav'', ''ol'', ''p'', ''pre'', ''section'',
      ''table'', ''td'', ''th'', ''tr'', ''ul'']"

datatype event = Txt string | Brk

fun events :: "node \<Rightarrow> event list" where
  "events (Str k s) = (if k = NavigableString \<or> k = CData then [Txt s] else [])"
| "events (Tag nm at cs) =
     (if nm \<in> set block_tags then Brk # concat (map events cs) @ [Brk]
      else concat (map events cs))"

fun gather :: "event list \<Rightarrow> string \<Rightarrow> string list" where
  "gather [] cur = [cur]"
| "gather (Txt s # es) cur = gather es (cur @ s)"
| "gather (Brk # es) cur = cur # gather es []"

fun contents :: "node \<Rightarrow> node list" where
  "contents (Tag nm at cs) = cs"
| "contents n = []"

definition claimed_body_text :: "node \<Rightarrow> string" where
  "claimed_body_text region =
     collapse_newlines (join [CHR 0x0A]
       (filter (\<lambda>s. s \<noteq> [])
          (map strip (gather (concat (map events (contents region))) []))))"

text \<open>The class of one href, as the chain of line 108 to 115 decides it from
  \<open>domain\<close>, the netloc of the request URL.\<close>

datatype link_class = Internal | External | Dropped

definition classify :: "string \<Rightarrow> string \<Rightarrow> link_class" where
  "classify domain href =
     (if href = [] \<or> startswith href ''#'' \<or> startswith href ''mailto:'' then Dropped
      else if (domain \<noteq> [] \<and> contains domain href) \<or> startswith href ''/'' then Internal
      else if startswith href ''http'' then External
      else Dropped)"

text \<open>The class as the specification words it, from the hostname of the request
  URL.\<close>

definition claimed_classify :: "string \<Rightarrow> string \<Rightarrow> link_class" where
  "claimed_classify host href =
     (if href = [] \<or> startswith href ''#'' \<or> startswith href ''mailto:'' then Dropped
      else if contains host href \<or> startswith href ''/'' then Internal
      else if startswith href ''http'' then External
      else Dropped)"

text \<open>The hostname of a netloc, as the \<open>hostname\<close> attribute of a \<open>urlparse\<close> result
  gives it: what follows the last \<open>@\<close>, up to the port, or between the brackets
  of an IPv6 literal, in lower case.\<close>

definition hostname_of :: "string \<Rightarrow> string" where
  "hostname_of nl =
     (let hostinfo = rev (takeWhile (\<lambda>c. c \<noteq> CHR ''@'') (rev nl))
      in lower (if CHR ''['' \<in> set hostinfo
                then takeWhile (\<lambda>c. c \<noteq> CHR '']'')
                       (tl (dropWhile (\<lambda>c. c \<noteq> CHR ''['') hostinfo))
                else takeWhile (\<lambda>c. c \<noteq> CHR '':'') hostinfo))"

text \<open>The href of an anchor and the link built from it.\<close>

definition href_of :: "node \<Rightarrow> string" where
  "href_of a = (case get_attr ''href'' a of None \<Rightarrow> [] | Some href \<Rightarrow> href)"

definition link_of :: "node \<Rightarrow> link" where
  "link_of a = (get_text [] a, href_of a)"

text \<open>The tokens of a string delimited by the characters that satisfy \<open>P\<close>: its
  maximal blocks of other characters.\<close>

function tokens_by :: "(char \<Rightarrow> bool) \<Rightarrow> string \<Rightarrow> string list" where
  "tokens_by P [] = []"
| "tokens_by P (c # cs) =
     (if P c then tokens_by P cs
      else (c # takeWhile (\<lambda>x. \<not> P x) cs) # tokens_by P (dropWhile (\<lambda>x. \<not> P x) cs))"
  by pat_completeness auto
termination
proof (relation "measure (\<lambda>(P, s). length s)")
  show "wf (measure (\<lambda>(P, s). length s))" by simp
next
  fix P :: "char \<Rightarrow> bool" and c :: char and cs :: string
  show "((P, cs), (P, c # cs)) \<in> measure (\<lambda>(P, s). length s)" by simp
next
  fix P :: "char \<Rightarrow> bool" and c :: char and cs :: string
  show "((P, dropWhile (\<lambda>x. \<not> P x) cs), (P, c # cs)) \<in> measure (\<lambda>(P, s). length s)"
    using length_dropWhile_le [of "\<lambda>x. \<not> P x" cs] by simp
qed

text \<open>A string without whitespace at either end.\<close>

definition trimmed :: "string \<Rightarrow> bool" where
  "trimmed s = (s = [] \<or> (\<not> is_space (hd s) \<and> \<not> is_space (last s)))"

section \<open>Sample inputs\<close>

text \<open>A small page, as markup and as the tree \<open>html.parser\<close> builds from it.\<close>

definition page_markup :: string where
  "page_markup =
     ''<html><head><title> Demo page </title></head><body>''
     @ ''<div class=entry-content><h2>Intro</h2><p>a</p><p>b</p>''
     @ ''<a href=/about>About</a><a href=https://x.com/other>Other</a>''
     @ ''<a href=https://other.com/page>Ext</a><a href=#section>Frag</a>''
     @ ''<a href=mailto:a@b.com>Mail</a></div></body></html>''"

definition page_div :: node where
  "page_div =
     Tag ''div'' [(''class'', ''entry-content'')]
       [Tag ''h2'' [] [Text ''Intro''],
        Tag ''p'' [] [Text ''a''],
        Tag ''p'' [] [Text ''b''],
        Tag ''a'' [(''href'', ''/about'')] [Text ''About''],
        Tag ''a'' [(''href'', ''https://x.com/other'')] [Text ''Other''],
        Tag ''a'' [(''href'', ''https://other.com/page'')] [Text ''Ext''],
        Tag ''a'' [(''href'', ''#section'')] [Text ''Frag''],
        Tag ''a'' [(''href'', ''mailto:a@b.com'')] [Text ''Mail'']]"

definition page_body :: node where
  "page_body = Tag ''body'' [] [page_div]"

definition page_soup :: node where
  "page_soup =
     Tag ''[document]'' []
       [Tag ''html'' []
          [Tag ''head'' [] [Tag ''title'' [] [Text '' Demo page '']],
           page_body]]"



text \<open>A paragraph whose text holds four line feeds in a row.\<close>

definition gap_tag :: node where
  "gap_tag =
     Tag ''p'' []
       [Text (''  a'' @ [CHR 0x0A, CHR 0x0A, CHR 0x0A, CHR 0x0A] @ ''b '')]"











text \<open>A paragraph with inline markup, as markup and as a tree.\<close>

definition inline_markup :: string where
  "inline_markup = ''<p>Hello <b>World</b>!</p>''"

definition inline_par :: node where
  "inline_par = Tag ''p'' [] [Text ''Hello '', Tag ''b'' [] [Text ''World''], Text ''!'']"

definition inline_soup :: node where
  "inline_soup = Tag ''[document]'' [] [inline_par]"

text \<open>A challenge page served with status 200.\<close>

definition challenge_markup :: string where
  "challenge_markup = ''<html><head><title>Just a moment...</title></head></html>''"

text \<open>A page whose only block signal starts after its first 5000 characters.\<close>

definition late_signal_markup :: string where
  "late_signal_markup = replicate 5000 CHR ''x'' @ ''just a moment''"

text \<open>A markup the parser rejects, and the parser on the markups used below.\<close>

definition rejected_markup :: string where
  "rejected_markup = ''<![invalid[ x ]]><p>hi</p>''"

definition sample_parser :: "string \<Rightarrow> exn + node" where
  "sample_parser markup =
     (if markup = page_markup then Inr page_soup
      else if markup = inline_markup then Inr inline_soup
      else if markup = rejected_markup then Inl ParserRejectedMarkup
      else Inr (Tag ''[document]'' [] [Text markup]))"

text \<open>\<open>urlparse\<close> on the URLs used below, with the results \<open>urllib.parse\<close> gives
  for them.\<close>

definition sample_urlparse :: "string \<Rightarrow> parse_result option" where
  "sample_urlparse url =
     (if url = ''https://x.com/blog/my-post/''
      then Some \<lparr>netloc = ''x.com'', path = ''/blog/my-post/''\<rparr>
      else if url = ''https://x.com/blog/my-post//''
      then Some \<lparr>netloc = ''x.com'', path = ''/blog/my-post//''\<rparr>
      else if url = ''https://x.com:8080/post''
      then Some \<lparr>netloc = ''x.com:8080'', path = ''/post''\<rparr>
      else if url = ''https://down.example/post''
      then Some \<lparr>netloc = ''down.example'', path = ''/post''\<rparr>
      else if url = ''https://silent.example/post''
      then Some \<lparr>netloc = ''silent.example'', path = ''/post''\<rparr>
      else if url = ''https://late.example/post''
      then Some \<lparr>netloc = ''late.example'', path = ''/post''\<rparr>
      else None)"

text \<open>A transport: the first site answers the bot profile with the challenge page
  and the browser profile with the page; the second serves the page to every
  profile; the third times out and then answers 503; the fourth raises an
  exception without a message; the fifth answers 403 with the challenge page.\<close>

definition ok_response :: "string \<Rightarrow> string \<Rightarrow> response" where
  "ok_response url markup =
     \<lparr>status_code = 200, reason = ''OK'', resp_url = url, resp_text = markup\<rparr>"

definition sample_get :: "string \<Rightarrow> headers \<Rightarrow> attempt" where
  "sample_get url h =
     (if url = ''https://x.com/blog/my-post/'' then
        (if h = hd HEADER_SETS then Responded (ok_response url challenge_markup)
         else Responded (ok_response url page_markup))
      else if url = ''https://x.com:8080/post'' then
        Responded (ok_response url page_markup)
      else if url = ''https://late.example/post'' then
        Responded (ok_response url late_signal_markup)
      else if url = ''https://down.example/post'' then
        (if h = hd HEADER_SETS then Raised ''timed out''
         else Responded \<lparr>status_code = 503, reason = ''Service Unavailable'',
                          resp_url = url, resp_text = []\<rparr>)
      else if url = ''https://silent.example/post'' then Raised []
      else if url = ''https://blocked.example/post'' then
        Responded \<lparr>status_code = 403, reason = ''Forbidden'', resp_url = url,
                    resp_text = challenge_markup\<rparr>
      else Raised ''no route to host'')"

definition sample_lib :: library where
  "sample_lib =
     \<lparr>http_get = sample_get, html_parser = sample_parser, urlparse = sample_urlparse\<rparr>"

section \<open>Lemmas on the string functions\<close>

lemma startswith_iff: "startswith s p \<longleftrightarrow> (\<exists>post. s = p @ post)"
  by (induction s p rule: startswith.induct) auto

lemma contains_iff: "contains sub s \<longleftrightarrow> (\<exists>pre post. s = pre @ sub @ post)"
proof (induction s)
  case Nil
  then show ?case by simp
next
  case (Cons c cs)
  show ?case
  proof
    assume "contains sub (c # cs)"
    then consider "startswith (c # cs) sub" | "contains sub cs" by auto
    then show "\<exists>pre post. c # cs = pre @ sub @ post"
    proof cases
      case 1
      then obtain post where "c # cs = sub @ post" using startswith_iff by blast
      then have "c # cs = [] @ sub @ post" by simp
      then show ?thesis by blast
    next
      case 2
      then obtain pre post where "cs = pre @ sub @ post" using Cons.IH by blast
      then have "c # cs = (c # pre) @ sub @ post" by simp
      then show ?thesis by blast
    qed
  next
    assume "\<exists>pre post. c # cs = pre @ sub @ post"
    then obtain pre post where e: "c # cs = pre @ sub @ post" by blast
    show "contains sub (c # cs)"
    proof (cases pre)
      case Nil
      with e have "c # cs = sub @ post" by simp
      then have "startswith (c # cs) sub" using startswith_iff by blast
      then show ?thesis by simp
    next
      case (Cons p ps)
      then have "cs = ps @ sub @ post" using e by simp
      then have "contains sub cs" using Cons.IH by blast
      then show ?thesis by simp
    qed
  qed
qed

lemma contains_set: "contains sub s \<Longrightarrow> set sub \<subseteq> set s"
  using contains_iff by fastforce

lemma split_on_not_Nil: "split_on sep s \<noteq> []"
  by (induction s) (auto split: list.splits)

lemma split_on_single: "(tl (split_on sep s) = []) = (sep \<notin> set s)"
  by (induction s) (auto split: list.splits simp: split_on_not_Nil)

lemma last_split_on: "last (split_on sep s) = rev (takeWhile (\<lambda>c. c \<noteq> sep) (rev s))"
proof (induction s)
  case Nil
  then show ?case by simp
next
  case (Cons c cs)
  obtain w ws where sp: "split_on sep cs = w # ws"
    using split_on_not_Nil [of sep cs] by (cases "split_on sep cs") auto
  show ?case
  proof (cases "c = sep")
    case True
    then have "last (split_on sep (c # cs)) = last (split_on sep cs)"
      by (simp add: split_on_not_Nil)
    moreover have "takeWhile (\<lambda>c. c \<noteq> sep) (rev cs @ [c]) = takeWhile (\<lambda>c. c \<noteq> sep) (rev cs)"
      using True by (simp add: takeWhile_tail)
    ultimately show ?thesis using Cons.IH by simp
  next
    case False
    show ?thesis
    proof (cases "sep \<in> set cs")
      case True
      then have "ws \<noteq> []" using sp split_on_single [of sep cs] by auto
      then have "last (split_on sep (c # cs)) = last (split_on sep cs)"
        using sp False by simp
      moreover have "takeWhile (\<lambda>c. c \<noteq> sep) (rev cs @ [c]) = takeWhile (\<lambda>c. c \<noteq> sep) (rev cs)"
        using True by (intro takeWhile_append1 [of sep]) auto
      ultimately show ?thesis using Cons.IH by simp
    next
      case no: False
      then have "ws = []" using sp split_on_single [of sep cs] by auto
      then have l: "last (split_on sep (c # cs)) = c # last (split_on sep cs)"
        using sp False by simp
      have "\<forall>x\<in>set (rev cs). x \<noteq> sep" using no by auto
      then have t1: "takeWhile (\<lambda>c. c \<noteq> sep) (rev cs) = rev cs"
        by (simp only: takeWhile_eq_all_conv)
      have "\<forall>x\<in>set (rev cs @ [c]). x \<noteq> sep" using no False by auto
      then have t2: "takeWhile (\<lambda>c. c \<noteq> sep) (rev cs @ [c]) = rev cs @ [c]"
        by (simp only: takeWhile_eq_all_conv)
      have "last (split_on sep cs) = cs" using Cons.IH by (simp only: t1 rev_rev_ident)
      then have A: "last (split_on sep (c # cs)) = c # cs" using l by simp
      have B: "rev (takeWhile (\<lambda>c. c \<noteq> sep) (rev (c # cs))) = c # cs"
        by (simp only: rev.simps t2 rev_append rev_rev_ident) simp
      show ?thesis by (simp only: A B)
    qed
  qed
qed

lemma last_dropWhile: "dropWhile P xs \<noteq> [] \<Longrightarrow> last (dropWhile P xs) = last xs"
  by (induction xs) (auto split: if_splits)


lemma takeWhile_all: "\<forall>x\<in>set xs. P x \<Longrightarrow> takeWhile P xs = xs"
  by simp

lemma takeWhile_holds: "x \<in> set (takeWhile Q xs) \<Longrightarrow> Q x"
  by (induction xs) (auto split: if_splits)

lemma strip_Nil: "strip [] = []"
  by (simp add: strip_def rstrip_with_def)

lemma strip_trimmed: "trimmed (strip s)"
proof -
  define t where "t = dropWhile is_space s"
  define r where "r = dropWhile is_space (rev t)"
  have s: "strip s = rev r" by (simp add: strip_def rstrip_with_def t_def r_def)
  show ?thesis
  proof (cases "r = []")
    case True
    then show ?thesis using s by (simp add: trimmed_def)
  next
    case False
    then have 1: "\<not> is_space (hd r)" unfolding r_def by (rule hd_dropWhile)
    have "last r = last (rev t)" using False unfolding r_def by (rule last_dropWhile)
    moreover have "t \<noteq> []" using False by (auto simp: r_def)
    ultimately have "last r = hd t" by (simp add: last_rev)
    moreover have "\<not> is_space (hd t)" using \<open>t \<noteq> []\<close> unfolding t_def by (rule hd_dropWhile)
    ultimately have 2: "\<not> is_space (last r)" by simp
    show ?thesis using s False 1 2 by (simp add: trimmed_def hd_rev last_rev)
  qed
qed


lemma stripped_string_trimmed:
  "x \<in> set (stripped_string types n) \<Longrightarrow> x \<noteq> [] \<and> trimmed x"
  by (cases n) (auto simp: strip_trimmed split: if_splits)

lemma all_strings_trimmed: "x \<in> set (all_strings n) \<Longrightarrow> x \<noteq> [] \<and> trimmed x"
  using stripped_string_trimmed by (auto simp: all_strings_def)

lemma join_Nil_iff: "(\<forall>x \<in> set xs. x \<noteq> []) \<Longrightarrow> (join sep xs = []) = (xs = [])"
  by (induction sep xs rule: join.induct) auto


lemma hd_join: "xs \<noteq> [] \<Longrightarrow> hd xs \<noteq> [] \<Longrightarrow> hd (join sep xs) = hd (hd xs)"
  by (induction sep xs rule: join.induct) auto

lemma last_join:
  "xs \<noteq> [] \<Longrightarrow> \<forall>x \<in> set xs. x \<noteq> [] \<Longrightarrow> last (join sep xs) = last (last xs)"
proof (induction sep xs rule: join.induct)
  case (3 sep x y ys)
  then have "join sep (y # ys) \<noteq> []" using join_Nil_iff [of "y # ys" sep] by simp
  then show ?case using 3 by simp
qed auto

lemma join_trimmed:
  assumes "\<forall>x \<in> set xs. x \<noteq> [] \<and> trimmed x"
  shows "trimmed (join sep xs)"
proof (cases xs)
  case Nil
  then show ?thesis by (simp add: trimmed_def)
next
  case (Cons y ys)
  then have ne: "xs \<noteq> []" by simp
  have a: "\<forall>x \<in> set xs. x \<noteq> []" using assms by blast
  have "hd xs \<in> set xs" and "last xs \<in> set xs" using ne by auto
  then have "trimmed (hd xs)" "hd xs \<noteq> []" "trimmed (last xs)" "last xs \<noteq> []"
    using assms by blast+
  then have "\<not> is_space (hd (hd xs))" "\<not> is_space (last (last xs))"
    by (auto simp: trimmed_def)
  then show ?thesis
    using hd_join [OF ne \<open>hd xs \<noteq> []\<close>, of sep] last_join [OF ne a, of sep]
    by (simp add: trimmed_def)
qed


lemma get_text_trimmed: "trimmed (get_text sep n)"
  unfolding get_text_def using all_strings_trimmed by (intro join_trimmed) blast

subsection \<open>Collapsing line feeds\<close>

lemma is_nl_nl: "is_nl (CHR 0x0A)"
  by (simp add: is_nl_def)

lemma collapse_run_start:
  assumes "post = [] \<or> \<not> is_nl (hd post)"
  shows "collapse_newlines (replicate n (CHR 0x0A) @ post)
           = replicate (min n 2) (CHR 0x0A) @ collapse_newlines post"
proof -
  have tw: "takeWhile is_nl (replicate m (CHR 0x0A) @ post) = replicate m (CHR 0x0A)" for m
    using assms by (cases post) (auto simp: takeWhile_append is_nl_def)
  have dw: "dropWhile is_nl (replicate m (CHR 0x0A) @ post) = post" for m
    using assms by (cases post) (auto simp: dropWhile_append is_nl_def)
  have one: "collapse_newlines (CHR 0x0A # post) = CHR 0x0A # collapse_newlines post"
    using tw [of 0] by simp
  show ?thesis
  proof (cases n)
    case 0
    then show ?thesis by simp
  next
    case (Suc m)
    show ?thesis
    proof (cases "2 \<le> m")
      case True
      then show ?thesis using Suc tw [of m] dw [of m] by (simp add: is_nl_def numeral_2_eq_2)
    next
      case False
      then consider "m = 0" | "m = 1" by linarith
      then show ?thesis
      proof cases
        case 1
        then show ?thesis using Suc one by simp
      next
        case 2
        then have "collapse_newlines (replicate n (CHR 0x0A) @ post)
            = CHR 0x0A # collapse_newlines (CHR 0x0A # post)"
          using Suc tw [of 1] by simp
        then show ?thesis using one Suc 2 by (simp add: numeral_2_eq_2)
      qed
    qed
  qed
qed

lemma collapse_run:
  assumes "pre = [] \<or> \<not> is_nl (last pre)" and "post = [] \<or> \<not> is_nl (hd post)"
  shows "collapse_newlines (pre @ replicate n (CHR 0x0A) @ post)
           = collapse_newlines pre @ replicate (min n 2) (CHR 0x0A) @ collapse_newlines post"
  using assms(1)
proof (induction pre rule: length_induct)
  case (1 pre)
  define R where "R = replicate n (CHR 0x0A) @ post"
  show ?case
  proof (cases pre)
    case Nil
    then show ?thesis using collapse_run_start [OF assms(2)] by simp
  next
    case (Cons c pre')
    have l': "pre' = [] \<or> \<not> is_nl (last pre')" using 1(2) Cons by (auto split: if_splits)
    have ih': "collapse_newlines (pre' @ R) = collapse_newlines pre' @ replicate (min n 2) (CHR 0x0A) @ collapse_newlines post"
      using 1(1) [rule_format, of pre'] l' Cons unfolding R_def by simp
    show ?thesis
    proof (cases "is_nl c")
      case False
      then show ?thesis using Cons ih' by (simp add: R_def)
    next
      case True
      then have ne: "pre' \<noteq> []" using 1(2) Cons by auto
      then have ln: "\<not> is_nl (last pre')" using l' by simp
      define d where "d = dropWhile is_nl pre'"
      have "last pre' \<in> set pre'" using ne by simp
      then have ex: "\<exists>x \<in> set pre'. \<not> is_nl x" using ln by blast
      then have tw: "takeWhile is_nl (pre' @ R) = takeWhile is_nl pre'"
        by (metis takeWhile_append1)
      have dw: "dropWhile is_nl (pre' @ R) = d @ R"
        unfolding d_def using ex by (metis dropWhile_append1)
      have dne: "d \<noteq> []" unfolding d_def using ex by auto
      then have dl: "\<not> is_nl (last d)" using ln unfolding d_def by (simp add: last_dropWhile)
      have "length d \<le> length pre'" unfolding d_def by (rule length_dropWhile_le)
      then have ihd: "collapse_newlines (d @ R) = collapse_newlines d @ replicate (min n 2) (CHR 0x0A) @ collapse_newlines post"
        using 1(1) [rule_format, of d] dl Cons unfolding R_def by simp
      show ?thesis
      proof (cases "2 \<le> length (takeWhile is_nl pre')")
        case t: True
        then have "collapse_newlines (pre @ R) = CHR 0x0A # CHR 0x0A # collapse_newlines (d @ R)"
          using Cons True tw dw by simp
        moreover have "collapse_newlines pre = CHR 0x0A # CHR 0x0A # collapse_newlines d"
          using Cons True t by (simp add: d_def)
        ultimately show ?thesis using ihd by (simp add: R_def)
      next
        case f: False
        then have "collapse_newlines (pre @ R) = c # collapse_newlines (pre' @ R)"
          using Cons True tw by simp
        moreover have "collapse_newlines pre = c # collapse_newlines pre'"
          using Cons True f by simp
        ultimately show ?thesis using ih' by (simp add: R_def)
      qed
    qed
  qed
qed

lemma leading_collapse:
  "length (takeWhile is_nl (collapse_newlines s)) = min 2 (length (takeWhile is_nl s))"
proof (induction s rule: collapse_newlines.induct)
  case 1
  then show ?case by simp
next
  case (2 c cs)
  show ?case
  proof (cases "is_nl c \<and> 2 \<le> length (takeWhile is_nl cs)")
    case True
    have "takeWhile is_nl (dropWhile is_nl cs) = []"
      by (metis takeWhile_dropWhile_id takeWhile_eq_Nil_iff hd_dropWhile)
    then have "length (takeWhile is_nl (collapse_newlines (dropWhile is_nl cs))) = 0"
      using 2(1) True by simp
    then show ?thesis using True is_nl_nl by simp
  next
    case False
    then show ?thesis using 2(2) by auto
  qed
qed

lemma startswith_two: "startswith t [CHR 0x0A, CHR 0x0A] \<longleftrightarrow> 2 \<le> length (takeWhile is_nl t)"
proof (cases t)
  case Nil
  then show ?thesis by simp
next
  case (Cons a r)
  then show ?thesis by (cases r) (auto simp: is_nl_def)
qed

lemma contains_triple_Cons:
  "contains [CHR 0x0A, CHR 0x0A, CHR 0x0A] (x # t) \<longleftrightarrow>
     (is_nl x \<and> 2 \<le> length (takeWhile is_nl t)) \<or> contains [CHR 0x0A, CHR 0x0A, CHR 0x0A] t"
  using startswith_two [of t] by (auto simp: is_nl_def)

lemma collapse_no_triple: "\<not> contains [CHR 0x0A, CHR 0x0A, CHR 0x0A] (collapse_newlines s)"
proof (induction s rule: collapse_newlines.induct)
  case 1
  then show ?case by simp
next
  case (2 c cs)
  show ?case
  proof (cases "is_nl c \<and> 2 \<le> length (takeWhile is_nl cs)")
    case True
    define t where "t = collapse_newlines (dropWhile is_nl cs)"
    have "takeWhile is_nl (dropWhile is_nl cs) = []"
      by (metis takeWhile_dropWhile_id takeWhile_eq_Nil_iff hd_dropWhile)
    then have l: "length (takeWhile is_nl t) = 0"
      unfolding t_def by (simp add: leading_collapse)
    have n: "\<not> contains [CHR 0x0A, CHR 0x0A, CHR 0x0A] t" using 2(1) True by (simp add: t_def)
    have "collapse_newlines (c # cs) = CHR 0x0A # CHR 0x0A # t" using True by (simp add: t_def)
    then show ?thesis using l n by (simp only: contains_triple_Cons) (auto simp: is_nl_def)
  next
    case False
    then have e: "collapse_newlines (c # cs) = c # collapse_newlines cs" by auto
    have "\<not> contains [CHR 0x0A, CHR 0x0A, CHR 0x0A] (collapse_newlines cs)"
      using 2(2) False by simp
    then show ?thesis
      using False by (simp only: e contains_triple_Cons leading_collapse) auto
  qed
qed

lemma collapse_Nil_iff: "(collapse_newlines s = []) = (s = [])"
  by (cases s) auto

lemma hd_collapse: "hd (collapse_newlines s) = hd s"
  by (cases s) (auto simp: is_nl_def)

lemma last_collapse: "s \<noteq> [] \<Longrightarrow> last (collapse_newlines s) = last s"
proof (induction s rule: collapse_newlines.induct)
  case 1
  then show ?case by simp
next
  case (2 c cs)
  show ?case
  proof (cases "is_nl c \<and> 2 \<le> length (takeWhile is_nl cs)")
    case True
    then have ne: "cs \<noteq> []" by auto
    define d where "d = dropWhile is_nl cs"
    have e: "collapse_newlines (c # cs) = CHR 0x0A # CHR 0x0A # collapse_newlines d"
      using True by (simp add: d_def)
    show ?thesis
    proof (cases "d = []")
      case dn: True
      then have "\<forall>x \<in> set cs. is_nl x" unfolding d_def by (simp add: dropWhile_eq_Nil_conv)
      then have "is_nl (last cs)" using ne by simp
      then have "last cs = CHR 0x0A" by (simp add: is_nl_def)
      then show ?thesis using e dn ne by simp
    next
      case df: False
      then have "last (collapse_newlines d) = last d"
        using 2(1) True unfolding d_def by blast
      moreover have "last d = last cs" using df unfolding d_def by (rule last_dropWhile)
      moreover have "collapse_newlines d \<noteq> []" using df by (cases d) auto
      ultimately show ?thesis using e ne by simp
    qed
  next
    case False
    then have e: "collapse_newlines (c # cs) = c # collapse_newlines cs" by auto
    show ?thesis
    proof (cases "cs = []")
      case True
      then show ?thesis using e by simp
    next
      case ne: False
      then have "last (collapse_newlines cs) = last cs" using 2(2) False by blast
      moreover have "collapse_newlines cs \<noteq> []" using ne by (cases cs) auto
      ultimately show ?thesis using e ne by simp
    qed
  qed
qed

lemma collapse_trimmed: "trimmed s \<Longrightarrow> trimmed (collapse_newlines s)"
  by (auto simp: trimmed_def hd_collapse last_collapse collapse_Nil_iff)

lemma body_text_trimmed: "trimmed (extract_body_text area)"
  by (simp add: extract_body_text_def collapse_trimmed get_text_trimmed)

subsection \<open>Tokens\<close>

lemma split_ws_tokens: "split_ws s = tokens_by is_space s"
  by (induction s rule: split_ws.induct) auto

lemma tokens_by_free: "w \<in> set (tokens_by P s) \<Longrightarrow> w \<noteq> [] \<and> (\<forall>x \<in> set w. \<not> P x)"
proof (induction P s rule: tokens_by.induct)
  case (1 P)
  then show ?case by simp
next
  case (2 P c cs)
  show ?case
  proof (cases "P c")
    case True
    then have "w \<in> set (tokens_by P cs)" using 2(3) by simp
    then show ?thesis using 2(1) True by blast
  next
    case False
    then consider "w = c # takeWhile (\<lambda>x. \<not> P x) cs"
      | "w \<in> set (tokens_by P (dropWhile (\<lambda>x. \<not> P x) cs))"
      using 2(3) by auto
    then show ?thesis
    proof cases
      case 1
      have "\<forall>x \<in> set (takeWhile (\<lambda>x. \<not> P x) cs). \<not> P x"
        using takeWhile_holds [of _ "\<lambda>x. \<not> P x" cs] by blast
      then show ?thesis using 1 False by simp
    next
      case 2
      then show ?thesis using "2.IH"(2) False by blast
    qed
  qed
qed

lemma tokens_by_word:
  assumes "x \<noteq> []" and "\<forall>c \<in> set x. \<not> P c" and "rest = [] \<or> P (hd rest)"
  shows "tokens_by P (x @ rest) = x # tokens_by P rest"
proof -
  obtain c cs where x: "x = c # cs" using assms(1) by (cases x) auto
  have tw: "takeWhile (\<lambda>x. \<not> P x) (cs @ rest) = cs"
    using assms(2,3) x by (cases rest) (auto simp: takeWhile_append)
  have dw: "dropWhile (\<lambda>x. \<not> P x) (cs @ rest) = rest"
    using assms(2,3) x by (cases rest) (auto simp: dropWhile_append)
  show ?thesis using x assms(2) tw dw by simp
qed

lemma tokens_by_join:
  assumes "P d" and "\<forall>w \<in> set ws. w \<noteq> [] \<and> (\<forall>x \<in> set w. \<not> P x)"
  shows "tokens_by P (join [d] ws) = ws"
  using assms(2)
proof (induction "[d]" ws rule: join.induct)
  case 1
  then show ?case by simp
next
  case (2 x)
  then show ?case using tokens_by_word [of x P "[]"] by simp
next
  case (3 x y ys)
  then have "tokens_by P (join [d] (y # ys)) = y # ys" by simp
  moreover have "tokens_by P (x @ d # join [d] (y # ys)) = x # tokens_by P (d # join [d] (y # ys))"
    using 3(2) assms(1) by (intro tokens_by_word) auto
  ultimately show ?case using assms(1) by simp
qed




section \<open>The returned record\<close>

lemma extract_post_returns:
  assumes "html_parser lib markup = Inr soup" and "urlparse lib url = Some u"
  shows "extract_post lib markup url =
     Inr [(''url'', PStr url),
          (''slug'', PStr (slug_of_path (path u))),
          (''title'', PStr (extract_title soup)),
          (''headings'', PList (extract_headings (find_content_area soup))),
          (''body_text'', PStr (extract_body_text (find_content_area soup))),
          (''internal_links'', PList (map link_dict
              (fst (extract_links (netloc u) (find_content_area soup))))),
          (''external_links'', PList (map link_dict
              (snd (extract_links (netloc u) (find_content_area soup))))),
          (''word_count'', PInt (length (split_ws
              (extract_body_text (find_content_area soup))))),
          (''error'', PNone)]"
  using assms by (simp add: extract_post_def Let_def)

lemma extract_post_parser_raises:
  assumes "html_parser lib markup = Inl e"
  shows "extract_post lib markup url = Inl e"
  using assms by (simp add: extract_post_def)

lemma extract_post_urlparse_raises:
  assumes "html_parser lib markup = Inr soup" and "urlparse lib url = None"
  shows "extract_post lib markup url = Inl ValueError"
  using assms by (simp add: extract_post_def Let_def)

lemma extract_post_keys:
  assumes "extract_post lib markup url = Inr d"
  shows "map fst d = success_keys \<and> map_of d ''error'' = Some PNone
         \<and> map_of d ''url'' = Some (PStr url)"
proof (cases "html_parser lib markup")
  case (Inl e)
  then show ?thesis using assms by (simp add: extract_post_parser_raises)
next
  case (Inr soup)
  show ?thesis
  proof (cases "urlparse lib url")
    case None
    then show ?thesis using assms Inr by (simp add: extract_post_urlparse_raises)
  next
    case (Some u)
    then show ?thesis
      using assms extract_post_returns [OF Inr Some]
      by (auto simp: success_keys_def)
  qed
qed

section \<open>The fetch loop\<close>

lemma fetch_loop_rejected:
  assumes "rejection (get h) = Some r"
  shows "fetch_loop get (h # hs) last_error = fetch_loop get hs (Some r)"
  using assms
  by (auto simp: rejection_def split: attempt.splits option.splits if_splits)

lemma fetch_loop_accepted:
  assumes "get h = Responded resp" and "rejection (get h) = None"
  shows "fetch_loop get (h # hs) last_error = (Some resp, last_error)"
  using assms
  by (auto simp: rejection_def split: attempt.splits option.splits if_splits)

lemma fetch_loop_Some:
  assumes "fetch_loop get hs last_error = (Some r, e)"
  shows "\<exists>h \<in> set hs. get h = Responded r \<and> rejection (get h) = None"
  using assms
proof (induction hs arbitrary: last_error)
  case Nil
  then show ?case by simp
next
  case (Cons h hs)
  show ?case
  proof (cases "rejection (get h)")
    case (Some x)
    then have "fetch_loop get hs (Some x) = (Some r, e)"
      using Cons.prems fetch_loop_rejected [of get h x hs last_error] by simp
    then show ?thesis using Cons.IH by auto
  next
    case None
    then obtain resp where g: "get h = Responded resp"
      by (cases "get h") (auto simp: rejection_def)
    then have "fetch_loop get (h # hs) last_error = (Some resp, last_error)"
      using None by (rule fetch_loop_accepted)
    then have "resp = r" using Cons.prems by simp
    then show ?thesis using g None by auto
  qed
qed

lemma reasons_Cons:
  "reasons get (h # hs) = (case rejection (get h) of None \<Rightarrow> reasons get hs | Some r \<Rightarrow> r # reasons get hs)"
  by (simp add: reasons_def List.map_filter_simps split: option.splits)

lemma fetch_loop_all_rejected:
  assumes "all_rejected get hs"
  shows "fetch_loop get hs last_error =
           (None, if reasons get hs = [] then last_error else Some (last (reasons get hs)))"
  using assms
proof (induction hs arbitrary: last_error)
  case Nil
  then show ?case by (simp add: reasons_def List.map_filter_simps)
next
  case (Cons h hs)
  then obtain r where r: "rejection (get h) = Some r"
    by (auto simp: all_rejected_def)
  have "all_rejected get hs" using Cons.prems by (simp add: all_rejected_def)
  then have "fetch_loop get hs (Some r) =
      (None, if reasons get hs = [] then Some r else Some (last (reasons get hs)))"
    by (rule Cons.IH)
  then show ?case
    using r fetch_loop_rejected [of get h r hs last_error]
    by (simp add: reasons_Cons del: fetch_loop.simps)
qed

lemma claimed_error_last:
  "claimed_error get hs = (if reasons get hs = [] then generic_reason else last (reasons get hs))"
  by (cases "reasons get hs" rule: rev_cases) (auto simp: claimed_error_def)

lemma fetch_post_with_failure:
  assumes "all_rejected (http_get lib url) hs"
  shows "fetch_post_with lib hs url =
     Inr [(''error'', PStr (if claimed_error (http_get lib url) hs = [] then generic_reason
                            else claimed_error (http_get lib url) hs)),
          (''url'', PStr url)]"
  using fetch_loop_all_rejected [OF assms, of None]
  by (auto simp: fetch_post_with_def or_default_def claimed_error_last generic_reason_def)

lemma fetch_post_with_success:
  assumes "fetch_loop (http_get lib url) hs None = (Some r, e)"
  shows "fetch_post_with lib hs url = extract_post lib (resp_text r) url"
  using assms by (simp add: fetch_post_with_def)

lemma fetch_loop_cases:
  "(\<exists>e. fetch_loop get hs last_error = (None, e) \<and> all_rejected get hs)
   \<or> (\<exists>r e. fetch_loop get hs last_error = (Some r, e))"
proof (induction hs arbitrary: last_error)
  case Nil
  then show ?case by (simp add: all_rejected_def)
next
  case (Cons h hs)
  show ?case
  proof (cases "rejection (get h)")
    case (Some x)
    then show ?thesis
      using Cons.IH [of "Some x"] fetch_loop_rejected [of get h x hs last_error]
      by (auto simp: all_rejected_def simp del: fetch_loop.simps)
  next
    case None
    then obtain resp where g: "get h = Responded resp"
      by (cases "get h") (auto simp: rejection_def)
    then show ?thesis
      using None fetch_loop_accepted [of get h resp hs last_error]
      by (auto simp del: fetch_loop.simps)
  qed
qed

lemma reported_error_nonempty: "reported_error get hs \<noteq> []"
  by (simp add: reported_error_def generic_reason_def)

section \<open>Block pages\<close>

lemma is_blocked_page_prefix: "is_blocked_page html = is_blocked_page (take 5000 html)"
  by (simp add: is_blocked_page_def)

lemma raise_for_status_2xx:
  "200 \<le> status_code resp \<and> status_code resp < 300 \<Longrightarrow> raise_for_status resp = None"
  by (simp add: raise_for_status_def)

section \<open>The tree queries\<close>







section \<open>The slug function\<close>

lemma slug_of_path_all: "slug_of_path p = slug_all_slashes p"
proof -
  define q where "q = rstrip_with (\<lambda>c. c = CHR ''/'') p"
  show ?thesis
  proof (cases "CHR ''/'' \<in> set q")
    case True
    then have "q \<noteq> []" by auto
    then show ?thesis using True
      by (simp add: slug_of_path_def slug_all_slashes_def Let_def q_def [symmetric]
          last_split_on after_last_slash_def)
  next
    case False
    then have "\<forall>x\<in>set (rev q). x \<noteq> CHR ''/''" by auto
    then have "takeWhile (\<lambda>c. c \<noteq> CHR ''/'') (rev q) = rev q" by (rule takeWhile_all)
    then have "after_last_slash q = q"
      unfolding after_last_slash_def by (simp only: rev_rev_ident)
    then show ?thesis using False
      by (simp add: slug_of_path_def slug_all_slashes_def Let_def q_def [symmetric])
  qed
qed

lemma rstrip_single:
  assumes "\<not> endswith p ''//''"
  shows "rstrip_with (\<lambda>c. c = CHR ''/'') p = strip_single_slash p"
proof (cases "rev p")
  case Nil
  then show ?thesis by (simp add: rstrip_with_def strip_single_slash_def)
next
  case (Cons a r)
  then have p: "p = rev r @ [a]" by (metis rev.simps(2) rev_rev_ident)
  show ?thesis
  proof (cases "a = CHR ''/''")
    case False
    then show ?thesis using p by (simp add: rstrip_with_def strip_single_slash_def)
  next
    case True
    have "r = [] \<or> hd r \<noteq> CHR ''/''"
      using assms p True by (cases r) (auto simp: endswith_def)
    then have "dropWhile (\<lambda>c. c = CHR ''/'') r = r" by (cases r) auto
    then show ?thesis using p True by (simp add: rstrip_with_def strip_single_slash_def)
  qed
qed

section \<open>The link loop\<close>

lemma link_step_classify:
  "link_step domain acc a =
     (case classify domain (href_of a) of
        Internal \<Rightarrow> (fst acc @ [link_of a], snd acc)
      | External \<Rightarrow> (fst acc, snd acc @ [link_of a])
      | Dropped \<Rightarrow> acc)"
proof (cases "get_attr ''href'' a")
  case None
  then show ?thesis by (simp add: link_step_def classify_def href_of_def)
next
  case (Some href)
  then show ?thesis
    by (simp add: link_step_def classify_def href_of_def link_of_def Let_def)
qed

lemma foldl_link_step:
  "foldl (link_step domain) acc as =
     (fst acc @ map link_of (filter (\<lambda>a. classify domain (href_of a) = Internal) as),
      snd acc @ map link_of (filter (\<lambda>a. classify domain (href_of a) = External) as))"
proof (induction as arbitrary: acc)
  case Nil
  then show ?case by simp
next
  case (Cons a as)
  have "foldl (link_step domain) acc (a # as) = foldl (link_step domain) (link_step domain acc a) as"
    by simp
  also have "\<dots> =
     (fst (link_step domain acc a)
        @ map link_of (filter (\<lambda>a. classify domain (href_of a) = Internal) as),
      snd (link_step domain acc a)
        @ map link_of (filter (\<lambda>a. classify domain (href_of a) = External) as))"
    by (rule Cons.IH)
  finally show ?case
    by (cases "classify domain (href_of a)") (simp_all add: link_step_classify [of domain acc a])
qed

lemma extract_links_filter:
  "extract_links domain area =
     (map link_of (filter (\<lambda>a. classify domain (href_of a) = Internal) (find_all_a_href area)),
      map link_of (filter (\<lambda>a. classify domain (href_of a) = External) (find_all_a_href area)))"
  by (simp add: extract_links_def foldl_link_step)

lemma classify_claimed: "domain \<noteq> [] \<Longrightarrow> classify domain href = claimed_classify domain href"
  by (simp add: classify_def claimed_classify_def)

lemma link_step_cases:
  "link_step domain (i, e) a = (i, e)
   \<or> (\<exists>l. link_step domain (i, e) a = (i @ [l], e))
   \<or> (\<exists>l. link_step domain (i, e) a = (i, e @ [l]))"
  by (cases "classify domain (href_of a)") (simp_all add: link_step_classify)

lemma extract_links_length:
  "length (fst (extract_links domain area)) + length (snd (extract_links domain area))
     \<le> length (find_all_a_href area)"
proof -
  have "length (filter P xs) + length (filter Q xs) \<le> length xs"
    if "\<And>x. \<not> (P x \<and> Q x)" for P Q :: "node \<Rightarrow> bool" and xs
    using that by (induction xs) auto
  then show ?thesis by (simp add: extract_links_filter)
qed

lemma extract_links_disjoint:
  "snd ` set (fst (extract_links domain area)) \<inter> snd ` set (snd (extract_links domain area)) = {}"
  by (auto simp: extract_links_filter link_of_def)

section \<open>Evaluation of the sample inputs\<close>

lemmas char_eval = is_space_def lower_char_def char_of_def bit_Suc_0_iff Let_def lower_def

lemmas text_eval = get_text_def all_strings_def interesting_string_types_def strip_def
  rstrip_with_def char_eval

lemma page_not_blocked: "\<not> is_blocked_page page_markup"
  by (simp add: is_blocked_page_def block_signals_def page_markup_def char_eval)

lemma challenge_blocked: "is_blocked_page challenge_markup"
  by (simp add: is_blocked_page_def block_signals_def challenge_markup_def char_eval)

lemma sample_down_rejected:
  "all_rejected (sample_get ''https://down.example/post'') HEADER_SETS"
  by (simp add: all_rejected_def HEADER_SETS_def sample_get_def rejection_def
      raise_for_status_def)

lemma sample_down_reasons:
  "reasons (sample_get ''https://down.example/post'') HEADER_SETS =
     [''timed out'',
      ''503 Server Error: Service Unavailable for url: https://down.example/post'']"
  by (simp add: reasons_def List.map_filter_simps HEADER_SETS_def sample_get_def rejection_def
      raise_for_status_def char_of_def bit_Suc_0_iff)

lemma sample_silent_rejected:
  "all_rejected (sample_get ''https://silent.example/post'') HEADER_SETS"
  by (simp add: all_rejected_def HEADER_SETS_def sample_get_def rejection_def)

lemma sample_silent_reasons:
  "reasons (sample_get ''https://silent.example/post'') HEADER_SETS = [[], []]"
  by (simp add: reasons_def List.map_filter_simps HEADER_SETS_def sample_get_def rejection_def)

lemma sample_page_fetch:
  "fetch_loop (sample_get ''https://x.com/blog/my-post/'') HEADER_SETS None =
     (Some (ok_response ''https://x.com/blog/my-post/'' page_markup), Some cloudflare_reason)"
  using page_not_blocked challenge_blocked
  by (simp add: HEADER_SETS_def sample_get_def ok_response_def raise_for_status_def)

lemma sample_urlparse_post:
  "urlparse sample_lib ''https://x.com/blog/my-post/''
     = Some \<lparr>netloc = ''x.com'', path = ''/blog/my-post/''\<rparr>"
  by (simp add: sample_lib_def sample_urlparse_def)

lemma sample_urlparse_port:
  "urlparse sample_lib ''https://x.com:8080/post''
     = Some \<lparr>netloc = ''x.com:8080'', path = ''/post''\<rparr>"
  by (simp add: sample_lib_def sample_urlparse_def)

lemma sample_parser_page: "html_parser sample_lib page_markup = Inr page_soup"
  by (simp add: sample_lib_def sample_parser_def)

lemma page_area: "find_content_area page_soup = page_body"
  by (simp add: find_content_area_def CONTENT_SELECTORS_def select_one_def matches_def
      page_soup_def page_body_def page_div_def words_def text_eval MIN_CONTENT_WORDS_def find_tag_def)

lemma page_body_text:
  "extract_body_text page_body =
     join [CHR 0x0A] [''Intro'', ''a'', ''b'', ''About'', ''Other'', ''Ext'', ''Frag'', ''Mail'']"
  by (simp add: extract_body_text_def page_body_def page_div_def text_eval is_nl_def)

lemma page_word_count: "length (split_ws (extract_body_text page_body)) = 8"
  by (simp add: page_body_text char_eval)

lemma gap_text: "extract_body_text gap_tag = ''a'' @ [CHR 0x0A, CHR 0x0A] @ ''b''"
  by (simp add: extract_body_text_def gap_tag_def text_eval is_nl_def)

lemma page_anchors:
  "find_all_a_href page_body =
     [Tag ''a'' [(''href'', ''/about'')] [Text ''About''],
      Tag ''a'' [(''href'', ''https://x.com/other'')] [Text ''Other''],
      Tag ''a'' [(''href'', ''https://other.com/page'')] [Text ''Ext''],
      Tag ''a'' [(''href'', ''#section'')] [Text ''Frag''],
      Tag ''a'' [(''href'', ''mailto:a@b.com'')] [Text ''Mail'']]"
  by (simp add: find_all_a_href_def page_body_def page_div_def)

lemma page_links:
  "extract_links ''x.com'' page_body =
     ([(''About'', ''/about''), (''Other'', ''https://x.com/other'')],
      [(''Ext'', ''https://other.com/page'')])"
  by (simp add: extract_links_filter page_anchors classify_def href_of_def link_of_def
      text_eval)

lemma page_links_port:
  "extract_links ''x.com:8080'' page_body =
     ([(''About'', ''/about'')],
      [(''Other'', ''https://x.com/other''), (''Ext'', ''https://other.com/page'')])"
  by (simp add: extract_links_filter page_anchors classify_def href_of_def link_of_def
      text_eval)

lemma hostname_port: "hostname_of ''x.com:8080'' = ''x.com''"
  by (simp add: hostname_of_def char_eval)




lemmas select_eval = select_one_def matches_def char_eval




















lemma inline_body_text:
  "extract_body_text inline_soup = ''Hello'' @ [CHR 0x0A] @ ''World'' @ [CHR 0x0A] @ ''!''"
  by (simp add: extract_body_text_def inline_soup_def inline_par_def text_eval is_nl_def)

lemma inline_claimed_text: "claimed_body_text inline_soup = ''Hello World!''"
  by (simp add: claimed_body_text_def inline_soup_def inline_par_def block_tags_def
      strip_def rstrip_with_def char_eval is_nl_def)

lemma inline_word_counts:
  "length (split_ws (extract_body_text inline_soup)) = 3"
  "length (split_ws (claimed_body_text inline_soup)) = 2"
  by (simp_all add: inline_body_text inline_claimed_text char_eval)

lemma inline_area: "find_content_area inline_soup = inline_soup"
  by (simp add: find_content_area_def CONTENT_SELECTORS_def select_eval find_tag_def
      inline_soup_def inline_par_def)

lemma sample_parser_inline: "html_parser sample_lib inline_markup = Inr inline_soup"
  by (simp add: sample_lib_def sample_parser_def inline_markup_def page_markup_def)

lemma sample_parser_rejected: "html_parser sample_lib rejected_markup = Inl ParserRejectedMarkup"
  by (simp add: sample_lib_def sample_parser_def rejected_markup_def page_markup_def
      inline_markup_def)

lemma rejected_markup_raises:
  "extract_post sample_lib rejected_markup url = Inl ParserRejectedMarkup"
  using sample_parser_rejected by (rule extract_post_parser_raises)



lemma signals_lower: "s \<in> set block_signals \<Longrightarrow> lower s = s"
  by (auto simp: block_signals_def char_eval)

lemma is_blocked_page_iff:
  "is_blocked_page html \<longleftrightarrow>
     (\<exists>s \<in> set block_signals. \<exists>pre mid post.
         take 5000 html = pre @ mid @ post \<and> lower mid = lower s)"
proof -
  have "contains s (lower (take 5000 html)) \<longleftrightarrow>
      (\<exists>pre mid post. take 5000 html = pre @ mid @ post \<and> lower mid = s)" for s
  proof
    assume "contains s (lower (take 5000 html))"
    then obtain p q where "lower (take 5000 html) = p @ s @ q"
      using contains_iff by blast
    then have "map lower_char (take 5000 html) = p @ s @ q" by (simp add: lower_def)
    then obtain pre r where 1: "take 5000 html = pre @ r" and "p = map lower_char pre"
      and "s @ q = map lower_char r"
      by (auto simp: map_eq_append_conv)
    then obtain mid post where 2: "r = mid @ post" and "s = map lower_char mid"
      by (metis map_eq_append_conv)
    then show "\<exists>pre mid post. take 5000 html = pre @ mid @ post \<and> lower mid = s"
      using 1 by (auto simp: lower_def)
  next
    assume "\<exists>pre mid post. take 5000 html = pre @ mid @ post \<and> lower mid = s"
    then obtain pre mid post where "take 5000 html = pre @ mid @ post" and "lower mid = s"
      by blast
    then have "lower (take 5000 html) = lower pre @ s @ lower post"
      by (simp add: lower_def)
    then show "contains s (lower (take 5000 html))" using contains_iff by blast
  qed
  then show ?thesis
    using signals_lower
    by (auto simp: is_blocked_page_def Let_def list_ex_iff)
qed

lemma late_signal_not_blocked: "\<not> is_blocked_page late_signal_markup"
proof -
  have "take 5000 late_signal_markup = replicate 5000 CHR ''x''"
    by (simp add: late_signal_markup_def)
  then have l: "lower (take 5000 late_signal_markup) = replicate 5000 CHR ''x''"
    by (simp add: char_eval)
  have "\<not> contains s (replicate 5000 CHR ''x'')" if "s \<in> set block_signals" for s
  proof
    assume "contains s (replicate 5000 CHR ''x'')"
    then have "set s \<subseteq> {CHR ''x''}" using contains_set by fastforce
    then show False using that by (auto simp: block_signals_def)
  qed
  then show ?thesis using l by (simp add: is_blocked_page_def list_ex_iff)
qed

lemma late_signal_contains: "contains ''just a moment'' (lower late_signal_markup)"
proof -
  have "lower late_signal_markup = replicate 5000 CHR ''x'' @ ''just a moment'' @ []"
    by (simp add: late_signal_markup_def char_eval)
  then show ?thesis using contains_iff by blast
qed

section \<open>The fetch stage\<close>

subsection \<open>Block pages\<close>

text \<open>
  C2, as the code has it. A page is a block page exactly when its first 5000
  characters have a block whose lower-case form is one of the four signals
  (which are in lower case themselves). A response that passes
  \<open>raise_for_status\<close>, as every response with a 2xx status does, and whose text
  is a block page is not accepted: the loop goes on to the next profile with
  the Cloudflare reason as \<open>last_error\<close>. A response with a status from 400 to
  599 is rejected by \<open>raise_for_status\<close> before its text is looked at, and the
  reason recorded is the message of the HTTP error, whatever the text holds.
  No response the loop accepts is a block page. Only the first 5000 characters
  count: a response that passes \<open>raise_for_status\<close> and has no signal there is
  accepted, whatever follows.
\<close>

theorem soft_block_rejection:
  "(is_blocked_page html \<longleftrightarrow>
      (\<exists>s \<in> set block_signals. \<exists>pre mid post.
          take 5000 html = pre @ mid @ post \<and> lower mid = lower s))
   \<and> (get h = Responded resp \<and> raise_for_status resp = None
        \<and> is_blocked_page (resp_text resp)
      \<longrightarrow> fetch_loop get (h # hs) last_error = fetch_loop get hs (Some cloudflare_reason))
   \<and> (200 \<le> status_code resp \<and> status_code resp < 300 \<longrightarrow> raise_for_status resp = None)
   \<and> (get h = Responded resp \<and> raise_for_status resp = Some msg
      \<longrightarrow> fetch_loop get (h # hs) last_error = fetch_loop get hs (Some msg))
   \<and> (fetch_loop get hs last_error = (Some r, e) \<longrightarrow> \<not> is_blocked_page (resp_text r))
   \<and> is_blocked_page html = is_blocked_page (take 5000 html)
   \<and> (get h = Responded resp \<and> raise_for_status resp = None
        \<and> \<not> is_blocked_page (take 5000 (resp_text resp))
      \<longrightarrow> fetch_loop get (h # hs) last_error = (Some resp, last_error))"
proof (intro conjI impI)
  show "is_blocked_page html \<longleftrightarrow>
      (\<exists>s \<in> set block_signals. \<exists>pre mid post.
          take 5000 html = pre @ mid @ post \<and> lower mid = lower s)"
    by (rule is_blocked_page_iff)
next
  assume "get h = Responded resp \<and> raise_for_status resp = None
        \<and> is_blocked_page (resp_text resp)"
  then show "fetch_loop get (h # hs) last_error = fetch_loop get hs (Some cloudflare_reason)"
    by simp
next
  assume "200 \<le> status_code resp \<and> status_code resp < 300"
  then show "raise_for_status resp = None" by (rule raise_for_status_2xx)
next
  assume "get h = Responded resp \<and> raise_for_status resp = Some msg"
  then show "fetch_loop get (h # hs) last_error = fetch_loop get hs (Some msg)"
    by simp
next
  assume "fetch_loop get hs last_error = (Some r, e)"
  then obtain h' where "get h' = Responded r" and "rejection (get h') = None"
    using fetch_loop_Some by blast
  then show "\<not> is_blocked_page (resp_text r)"
    by (auto simp: rejection_def split: option.splits if_splits)
next
  show "is_blocked_page html = is_blocked_page (take 5000 html)"
    by (rule is_blocked_page_prefix)
next
  assume "get h = Responded resp \<and> raise_for_status resp = None
        \<and> \<not> is_blocked_page (take 5000 (resp_text resp))"
  then show "fetch_loop get (h # hs) last_error = (Some resp, last_error)"
    using is_blocked_page_prefix [of "resp_text resp"] by simp
qed

theorem soft_block_rejection_witness:
  "is_blocked_page challenge_markup
   \<and> fetch_loop (sample_get ''https://x.com/blog/my-post/'') (hd HEADER_SETS # tl HEADER_SETS) None
       = fetch_loop (sample_get ''https://x.com/blog/my-post/'') (tl HEADER_SETS)
           (Some cloudflare_reason)
   \<and> contains ''just a moment'' (lower late_signal_markup)
   \<and> fetch_loop (sample_get ''https://late.example/post'') (hd HEADER_SETS # tl HEADER_SETS) None
       = (Some (ok_response ''https://late.example/post'' late_signal_markup), None)"
proof -
  have a1: "sample_get ''https://x.com/blog/my-post/'' (hd HEADER_SETS)
              = Responded (ok_response ''https://x.com/blog/my-post/'' challenge_markup)"
    by (simp add: sample_get_def)
  have a2: "raise_for_status (ok_response ''https://x.com/blog/my-post/'' challenge_markup) = None"
    by (simp add: raise_for_status_def ok_response_def)
  have a3: "is_blocked_page (resp_text (ok_response ''https://x.com/blog/my-post/'' challenge_markup))"
    using challenge_blocked by (simp add: ok_response_def)
  have b1: "sample_get ''https://late.example/post'' (hd HEADER_SETS)
              = Responded (ok_response ''https://late.example/post'' late_signal_markup)"
    by (simp add: sample_get_def)
  have b2: "raise_for_status (ok_response ''https://late.example/post'' late_signal_markup) = None"
    by (simp add: raise_for_status_def ok_response_def)
  have b3: "\<not> is_blocked_page
      (take 5000 (resp_text (ok_response ''https://late.example/post'' late_signal_markup)))"
    using late_signal_not_blocked is_blocked_page_prefix [of late_signal_markup]
    by (simp add: ok_response_def)
  have a: "fetch_loop (sample_get ''https://x.com/blog/my-post/'') (hd HEADER_SETS # tl HEADER_SETS) None
       = fetch_loop (sample_get ''https://x.com/blog/my-post/'') (tl HEADER_SETS)
           (Some cloudflare_reason)"
    using soft_block_rejection [of challenge_markup "sample_get ''https://x.com/blog/my-post/''"
        "hd HEADER_SETS" "ok_response ''https://x.com/blog/my-post/'' challenge_markup"
        "tl HEADER_SETS" None] a1 a2 a3
    by blast
  have b: "fetch_loop (sample_get ''https://late.example/post'') (hd HEADER_SETS # tl HEADER_SETS) None
       = (Some (ok_response ''https://late.example/post'' late_signal_markup), None)"
    using soft_block_rejection [of late_signal_markup "sample_get ''https://late.example/post''"
        "hd HEADER_SETS" "ok_response ''https://late.example/post'' late_signal_markup"
        "tl HEADER_SETS" None] b1 b2 b3
    by blast
  show ?thesis using a b challenge_blocked late_signal_contains by blast
qed

text \<open>The claim as the specification words it fails for a response with an error
  status: the challenge page served with status 403 is a block page, and the
  reason recorded for it, which the record reports, is the message of the HTTP
  error, not the Cloudflare reason.\<close>

theorem error_status_counterexample:
  "is_blocked_page challenge_markup
   \<and> sample_get ''https://blocked.example/post'' (hd HEADER_SETS) =
       Responded \<lparr>status_code = 403, reason = ''Forbidden'',
                   resp_url = ''https://blocked.example/post'', resp_text = challenge_markup\<rparr>
   \<and> fetch_loop (sample_get ''https://blocked.example/post'') HEADER_SETS None =
       (None, Some ''403 Client Error: Forbidden for url: https://blocked.example/post'')
   \<and> ''403 Client Error: Forbidden for url: https://blocked.example/post'' \<noteq> cloudflare_reason
   \<and> fetch_post sample_lib ''https://blocked.example/post'' =
       Inr [(''error'', PStr ''403 Client Error: Forbidden for url: https://blocked.example/post''),
            (''url'', PStr ''https://blocked.example/post'')]"
proof -
  have g: "sample_get ''https://blocked.example/post'' h =
       Responded \<lparr>status_code = 403, reason = ''Forbidden'',
                   resp_url = ''https://blocked.example/post'', resp_text = challenge_markup\<rparr>" for h
    by (simp add: sample_get_def)
  have f: "fetch_loop (sample_get ''https://blocked.example/post'') HEADER_SETS None =
       (None, Some ''403 Client Error: Forbidden for url: https://blocked.example/post'')"
    by (simp add: HEADER_SETS_def g raise_for_status_def char_of_def bit_Suc_0_iff)
  have n: "''403 Client Error: Forbidden for url: https://blocked.example/post'' \<noteq> cloudflare_reason"
    by (simp add: cloudflare_reason_def)
  have "fetch_post sample_lib ''https://blocked.example/post'' =
       Inr [(''error'', PStr ''403 Client Error: Forbidden for url: https://blocked.example/post''),
            (''url'', PStr ''https://blocked.example/post'')]"
    using f by (simp add: fetch_post_def fetch_post_with_def sample_lib_def or_default_def)
  then show ?thesis using challenge_blocked g f n by blast
qed

subsection \<open>Terminal failure\<close>

text \<open>
  C3, as the code has it. When every profile of the list is rejected, by an
  exception of the transport, by \<open>raise_for_status\<close> or as a block page, the
  function returns the record of exactly the two keys \<open>error\<close> and \<open>url\<close>: no
  content field is present. The parser and \<open>urlparse\<close> play no part in it, so
  extraction is not attempted. The error string is never empty: it is the most
  recently recorded reason when that reason is not the empty string, and
  \<open>Failed to fetch the page\<close> otherwise, that is for an empty list of profiles
  and for a last reason that is empty (\<open>last_error or ...\<close>).
\<close>

theorem terminal_fetch_failure:
  assumes "all_rejected (http_get lib url) hs"
  shows "fetch_post_with lib hs url =
           Inr [(''error'', PStr (reported_error (http_get lib url) hs)), (''url'', PStr url)]
         \<and> reported_error (http_get lib url) hs \<noteq> []
         \<and> fetch_post_with (lib\<lparr>html_parser := prs, urlparse := up\<rparr>) hs url
             = fetch_post_with lib hs url
         \<and> (hs = [] \<longrightarrow> reported_error (http_get lib url) hs = generic_reason)
         \<and> (hs = HEADER_SETS \<longrightarrow> fetch_post lib url = fetch_post_with lib hs url)"
proof -
  have a: "fetch_post_with lib hs url =
           Inr [(''error'', PStr (reported_error (http_get lib url) hs)), (''url'', PStr url)]"
    using fetch_post_with_failure [OF assms] by (simp add: reported_error_def)
  have "all_rejected (http_get (lib\<lparr>html_parser := prs, urlparse := up\<rparr>) url) hs"
    using assms by simp
  then have b: "fetch_post_with (lib\<lparr>html_parser := prs, urlparse := up\<rparr>) hs url =
           Inr [(''error'', PStr (reported_error (http_get lib url) hs)), (''url'', PStr url)]"
    using fetch_post_with_failure [of "lib\<lparr>html_parser := prs, urlparse := up\<rparr>" url hs]
    by (simp add: reported_error_def)
  have c: "hs = [] \<longrightarrow> reported_error (http_get lib url) hs = generic_reason"
    by (simp add: reported_error_def claimed_error_def reasons_def List.map_filter_simps)
  show ?thesis using a b c reported_error_nonempty by (simp add: fetch_post_def)
qed

theorem terminal_fetch_failure_witness:
  "all_rejected (http_get sample_lib ''https://down.example/post'') HEADER_SETS
   \<and> fetch_post sample_lib ''https://down.example/post'' =
       Inr [(''error'', PStr ''503 Server Error: Service Unavailable for url: https://down.example/post''),
            (''url'', PStr ''https://down.example/post'')]"
proof -
  have h: "all_rejected (http_get sample_lib ''https://down.example/post'') HEADER_SETS"
    using sample_down_rejected by (simp add: sample_lib_def)
  have r: "reported_error (http_get sample_lib ''https://down.example/post'') HEADER_SETS =
      ''503 Server Error: Service Unavailable for url: https://down.example/post''"
    by (simp add: reported_error_def claimed_error_def sample_down_reasons sample_lib_def)
  show ?thesis
    using terminal_fetch_failure [OF h] h r by simp
qed

text \<open>The claim as the specification words it fails when the exception of the
  last profile has an empty message: the most recently recorded reason is the
  empty string, and the code reports the generic one.\<close>

theorem empty_reason_counterexample:
  "all_rejected (http_get sample_lib ''https://silent.example/post'') HEADER_SETS
   \<and> claimed_error (http_get sample_lib ''https://silent.example/post'') HEADER_SETS = []
   \<and> fetch_post sample_lib ''https://silent.example/post'' =
       Inr [(''error'', PStr ''Failed to fetch the page''),
            (''url'', PStr ''https://silent.example/post'')]"
proof -
  have h: "all_rejected (http_get sample_lib ''https://silent.example/post'') HEADER_SETS"
    using sample_silent_rejected by (simp add: sample_lib_def)
  have c: "claimed_error (http_get sample_lib ''https://silent.example/post'') HEADER_SETS = []"
    by (simp add: claimed_error_def sample_silent_reasons sample_lib_def)
  have "fetch_post sample_lib ''https://silent.example/post'' =
      fetch_post_with sample_lib HEADER_SETS ''https://silent.example/post''"
    by (simp add: fetch_post_def)
  then show ?thesis
    using fetch_post_with_failure [OF h] h c by (simp add: generic_reason_def)
qed

subsection \<open>The shape of the record\<close>

text \<open>
  C7, as the code has it. Every returned record holds \<open>url\<close>, the URL of the call,
  and \<open>error\<close>. Either \<open>error\<close> is a string that is not empty and the record has
  no other key than these two: the content fields are absent, not null or empty.
  Or \<open>error\<close> is null and the record has all nine keys. So exactly one of the
  populated content fields and the error that is not null holds.
\<close>

theorem record_shape:
  assumes "fetch_post_with lib hs url = Inr d"
  shows "map_of d ''url'' = Some (PStr url)
         \<and> ((\<exists>s. s \<noteq> [] \<and> map_of d ''error'' = Some (PStr s)) \<and> map fst d = failure_keys
              \<or> map_of d ''error'' = Some PNone \<and> map fst d = success_keys)"
proof -
  consider e where "fetch_loop (http_get lib url) hs None = (None, e)"
      and "all_rejected (http_get lib url) hs"
    | r e where "fetch_loop (http_get lib url) hs None = (Some r, e)"
    using fetch_loop_cases [of "http_get lib url" hs None] by blast
  then show ?thesis
  proof cases
    case 1
    then have "d = [(''error'', PStr (reported_error (http_get lib url) hs)), (''url'', PStr url)]"
      using fetch_post_with_failure [of lib url hs] assms by (simp add: reported_error_def)
    then show ?thesis
      using reported_error_nonempty [of "http_get lib url" hs]
      by (simp add: failure_keys_def)
  next
    case 2
    then have "extract_post lib (resp_text r) url = Inr d"
      using assms by (simp add: fetch_post_with_success)
    then show ?thesis using extract_post_keys by blast
  qed
qed

theorem record_shape_witness:
  "fetch_post_with sample_lib HEADER_SETS ''https://x.com/blog/my-post/''
     = extract_post sample_lib page_markup ''https://x.com/blog/my-post/''
   \<and> (\<exists>d. extract_post sample_lib page_markup ''https://x.com/blog/my-post/'' = Inr d
          \<and> map_of d ''error'' = Some PNone \<and> map fst d = success_keys
          \<and> map_of d ''url'' = Some (PStr ''https://x.com/blog/my-post/''))"
proof -
  have f: "fetch_post_with sample_lib HEADER_SETS ''https://x.com/blog/my-post/''
     = extract_post sample_lib page_markup ''https://x.com/blog/my-post/''"
    using fetch_post_with_success [of sample_lib "''https://x.com/blog/my-post/''" HEADER_SETS]
      sample_page_fetch
    by (simp add: sample_lib_def ok_response_def)
  obtain d where d: "extract_post sample_lib page_markup ''https://x.com/blog/my-post/'' = Inr d"
    using extract_post_returns [OF sample_parser_page sample_urlparse_post] by blast
  then have "fetch_post_with sample_lib HEADER_SETS ''https://x.com/blog/my-post/'' = Inr d"
    using f by simp
  from record_shape [OF this] have
    "map_of d ''url'' = Some (PStr ''https://x.com/blog/my-post/'')"
    "(\<exists>s. s \<noteq> [] \<and> map_of d ''error'' = Some (PStr s)) \<and> map fst d = failure_keys
              \<or> map_of d ''error'' = Some PNone \<and> map fst d = success_keys"
    by blast+
  moreover have "map fst d \<noteq> failure_keys"
    using d extract_post_returns [OF sample_parser_page sample_urlparse_post]
    by (auto simp: failure_keys_def)
  ultimately show ?thesis using f d by auto
qed

text \<open>The claim as the specification words it fails on the error path: the record
  of a failed fetch has no key \<open>slug\<close> (nor any other content key).\<close>

theorem absent_keys_counterexample:
  "fetch_post sample_lib ''https://down.example/post'' =
       Inr [(''error'', PStr ''503 Server Error: Service Unavailable for url: https://down.example/post''),
            (''url'', PStr ''https://down.example/post'')]
   \<and> map_of [(''error'', PStr ''503 Server Error: Service Unavailable for url: https://down.example/post''),
            (''url'', PStr ''https://down.example/post'')] ''slug'' = None"
proof -
  have h: "all_rejected (http_get sample_lib ''https://down.example/post'') HEADER_SETS"
    using sample_down_rejected by (simp add: sample_lib_def)
  have "claimed_error (http_get sample_lib ''https://down.example/post'') HEADER_SETS =
      ''503 Server Error: Service Unavailable for url: https://down.example/post''"
    by (simp add: claimed_error_def sample_down_reasons sample_lib_def)
  then show ?thesis
    using fetch_post_with_failure [OF h] by (simp add: fetch_post_def)
qed

section \<open>The slug\<close>

text \<open>
  C4, as the code has it. \<open>rstrip("/")\<close> removes every trailing slash of the path,
  not one. The slug is what follows the last slash of the path so stripped, and
  \<open>post\<close> when the stripped path is empty; this is the slug of the
  record returned when the parser and \<open>urlparse\<close> return. On a path that does not end in two slashes it is the slug the
  specification describes. The paths \<open>/blog/my-post/\<close> and \<open>/blog/my-post\<close> give
  \<open>my-post\<close>; \<open>/\<close> and the empty path give \<open>post\<close>.
\<close>

theorem slug_derivation:
  "slug_of_path p = slug_all_slashes p
   \<and> (\<not> endswith p ''//'' \<longrightarrow> slug_of_path p = slug_claimed p)
   \<and> (html_parser lib markup = Inr soup \<and> urlparse lib url = Some u \<longrightarrow>
        (\<exists>d. extract_post lib markup url = Inr d
           \<and> map_of d ''slug'' = Some (PStr (slug_all_slashes (path u)))))
   \<and> slug_of_path ''/blog/my-post/'' = ''my-post''
   \<and> slug_of_path ''/'' = ''post''
   \<and> slug_of_path [] = ''post''
   \<and> slug_of_path ''/blog/my-post'' = ''my-post''"
proof (intro conjI impI)
  show "slug_of_path p = slug_all_slashes p" by (rule slug_of_path_all)
next
  assume "\<not> endswith p ''//''"
  then show "slug_of_path p = slug_claimed p"
    by (simp add: slug_of_path_all slug_all_slashes_def slug_claimed_def rstrip_single)
next
  assume "html_parser lib markup = Inr soup \<and> urlparse lib url = Some u"
  then show "\<exists>d. extract_post lib markup url = Inr d
           \<and> map_of d ''slug'' = Some (PStr (slug_all_slashes (path u)))"
    by (simp add: extract_post_returns slug_of_path_all)
next
  show "slug_of_path ''/blog/my-post/'' = ''my-post''" by code_simp
next
  show "slug_of_path ''/'' = ''post''" by code_simp
next
  show "slug_of_path [] = ''post''" by code_simp
next
  show "slug_of_path ''/blog/my-post'' = ''my-post''" by code_simp
qed

theorem slug_derivation_witness:
  "\<not> endswith ''/blog/my-post/'' ''//''
   \<and> slug_of_path ''/blog/my-post/'' = slug_claimed ''/blog/my-post/''
   \<and> slug_claimed ''/blog/my-post/'' = ''my-post''
   \<and> (\<exists>d. extract_post sample_lib page_markup ''https://x.com/blog/my-post/'' = Inr d
          \<and> map_of d ''slug'' = Some (PStr ''my-post''))"
proof -
  have h1: "\<not> endswith ''/blog/my-post/'' ''//''" by code_simp
  have h2: "urlparse sample_lib ''https://x.com/blog/my-post/''
              = Some \<lparr>netloc = ''x.com'', path = ''/blog/my-post/''\<rparr>"
    by (simp add: sample_lib_def sample_urlparse_def)
  have c1: "slug_claimed ''/blog/my-post/'' = ''my-post''" by code_simp
  have c2: "slug_all_slashes ''/blog/my-post/'' = ''my-post''" by code_simp
  note inst = slug_derivation [of "''/blog/my-post/''" sample_lib page_markup page_soup
        "''https://x.com/blog/my-post/''"
        "\<lparr>netloc = ''x.com'', path = ''/blog/my-post/''\<rparr>"]
  note agree = inst [THEN conjunct2, THEN conjunct1, THEN mp]
  note rec = inst [THEN conjunct2, THEN conjunct2, THEN conjunct1, THEN mp]
  show ?thesis
    using agree [OF h1] rec [OF conjI [OF sample_parser_page h2]] h1 c1 c2
    by simp
qed

text \<open>The claim as the specification words it fails on a path that ends in two
  slashes: the code gives \<open>my-post\<close>, stripping one slash leaves a path that ends
  in a slash, with nothing after it.\<close>

theorem slug_single_slash_counterexample:
  "slug_of_path ''/blog/my-post//'' = ''my-post''
   \<and> slug_claimed ''/blog/my-post//'' = []"
  by code_simp

section \<open>The title\<close>










section \<open>The body text\<close>

lemma gather_paragraphs:
  "gather (concat (map (\<lambda>s. [Brk, Txt s, Brk]) ss)) cur = cur # concat (map (\<lambda>s. [s, []]) ss)"
  by (induction ss arbitrary: cur) simp_all

lemma filter_strip_paragraphs:
  "filter (\<lambda>s. s \<noteq> []) (map strip (concat (map (\<lambda>s. [s, []]) ss)))
     = filter (\<lambda>s. s \<noteq> []) (map strip ss)"
  by (induction ss) (simp_all add: strip_Nil)

lemma events_paragraphs:
  "concat (map events (map (\<lambda>s. Tag ''p'' [] [Text s]) ss))
     = concat (map (\<lambda>s. [Brk, Txt s, Brk]) ss)"
  by (induction ss) (simp_all add: block_tags_def)

lemma strings_paragraphs:
  "concat (map (stripped_string [NavigableString, CData])
       (concat (map (\<lambda>c. c # descendants c) (map (\<lambda>s. Tag ''p'' [] [Text s]) ss))))
     = filter (\<lambda>s. s \<noteq> []) (map strip ss)"
  by (induction ss) simp_all

lemma paragraphs_agree:
  assumes "interesting_string_types nm = [NavigableString, CData]"
  shows "claimed_body_text (Tag nm at (map (\<lambda>s. Tag ''p'' [] [Text s]) ss))
           = extract_body_text (Tag nm at (map (\<lambda>s. Tag ''p'' [] [Text s]) ss))"
proof -
  have "all_strings (Tag nm at (map (\<lambda>s. Tag ''p'' [] [Text s]) ss))
      = filter (\<lambda>s. s \<noteq> []) (map strip ss)"
    using assms strings_paragraphs [of ss] by (simp add: all_strings_def)
  moreover have "filter (\<lambda>s. s \<noteq> [])
        (map strip (gather (concat (map events (map (\<lambda>s. Tag ''p'' [] [Text s]) ss))) []))
      = filter (\<lambda>s. s \<noteq> []) (map strip ss)"
    unfolding events_paragraphs gather_paragraphs
    using filter_strip_paragraphs [of ss] by (simp add: strip_Nil)
  ultimately show ?thesis
    by (simp add: claimed_body_text_def extract_body_text_def get_text_def)
qed

text \<open>
  C6, as the code has it. The body text is the text strings of the content
  area, one for each text node, each stripped and the empty ones left out,
  joined by line feeds: a line feed stands between any two text strings,
  also where an inline element begins or ends in the middle of a sentence,
  not only at the block boundaries. Then every block of three or more line
  feeds is replaced by two: a maximal block of \<open>n\<close> line feeds becomes
  \<open>min n 2\<close> of them, every other character is kept, and the result has no
  three line feeds in a row and no whitespace at either end. When the parser
  and \<open>urlparse\<close> return, the record carries this text, and \<open>word_count\<close> is
  the number of its tokens delimited by whitespace (\<open>str.split()\<close>). Each
  token is a block without delimiter, and joining such blocks by a delimiter
  and splitting gives them back. On a region made of paragraphs that hold one
  text string each, the text is the one the specification describes, with
  line feeds at the block boundaries.
\<close>

theorem body_text_normalization:
  "extract_body_text area = collapse_newlines (join [CHR 0x0A] (all_strings area))
   \<and> trimmed (extract_body_text area)
   \<and> ((pre = [] \<or> \<not> is_nl (last pre)) \<and> (post = [] \<or> \<not> is_nl (hd post))
        \<longrightarrow> collapse_newlines (pre @ replicate n (CHR 0x0A) @ post)
             = collapse_newlines pre @ replicate (min n 2) (CHR 0x0A) @ collapse_newlines post)
   \<and> (\<not> is_nl c \<longrightarrow> collapse_newlines (c # s) = c # collapse_newlines s)
   \<and> \<not> contains [CHR 0x0A, CHR 0x0A, CHR 0x0A] (extract_body_text area)
   \<and> (html_parser lib markup = Inr soup \<and> urlparse lib url = Some u \<longrightarrow>
        (\<exists>r. extract_post lib markup url = Inr r
           \<and> map_of r ''body_text'' = Some (PStr (extract_body_text (find_content_area soup)))
           \<and> map_of r ''word_count'' =
               Some (PInt (length (tokens_by is_space
                  (extract_body_text (find_content_area soup)))))))
   \<and> (\<forall>w \<in> set (tokens_by P t). w \<noteq> [] \<and> (\<forall>x \<in> set w. \<not> P x))
   \<and> (P d \<and> (\<forall>w \<in> set ws. w \<noteq> [] \<and> (\<forall>x \<in> set w. \<not> P x))
        \<longrightarrow> tokens_by P (join [d] ws) = ws)
   \<and> (interesting_string_types nm = [NavigableString, CData] \<longrightarrow>
        claimed_body_text (Tag nm at (map (\<lambda>s. Tag ''p'' [] [Text s]) ss))
          = extract_body_text (Tag nm at (map (\<lambda>s. Tag ''p'' [] [Text s]) ss)))"
proof (intro conjI impI)
  show "extract_body_text area = collapse_newlines (join [CHR 0x0A] (all_strings area))"
    by (simp add: extract_body_text_def get_text_def)
next
  show "trimmed (extract_body_text area)" by (rule body_text_trimmed)
next
  assume "(pre = [] \<or> \<not> is_nl (last pre)) \<and> (post = [] \<or> \<not> is_nl (hd post))"
  then show "collapse_newlines (pre @ replicate n (CHR 0x0A) @ post)
             = collapse_newlines pre @ replicate (min n 2) (CHR 0x0A) @ collapse_newlines post"
    using collapse_run by blast
next
  assume "\<not> is_nl c"
  then show "collapse_newlines (c # s) = c # collapse_newlines s" by simp
next
  show "\<not> contains [CHR 0x0A, CHR 0x0A, CHR 0x0A] (extract_body_text area)"
    unfolding extract_body_text_def by (rule collapse_no_triple)
next
  assume "html_parser lib markup = Inr soup \<and> urlparse lib url = Some u"
  then show "\<exists>r. extract_post lib markup url = Inr r
           \<and> map_of r ''body_text'' = Some (PStr (extract_body_text (find_content_area soup)))
           \<and> map_of r ''word_count'' =
               Some (PInt (length (tokens_by is_space
                  (extract_body_text (find_content_area soup)))))"
    by (simp add: extract_post_returns split_ws_tokens)
next
  show "\<forall>w \<in> set (tokens_by P t). w \<noteq> [] \<and> (\<forall>x \<in> set w. \<not> P x)"
    using tokens_by_free by blast
next
  assume "P d \<and> (\<forall>w \<in> set ws. w \<noteq> [] \<and> (\<forall>x \<in> set w. \<not> P x))"
  then show "tokens_by P (join [d] ws) = ws" using tokens_by_join by blast
next
  assume "interesting_string_types nm = [NavigableString, CData]"
  then show "claimed_body_text (Tag nm at (map (\<lambda>s. Tag ''p'' [] [Text s]) ss))
          = extract_body_text (Tag nm at (map (\<lambda>s. Tag ''p'' [] [Text s]) ss))"
    by (rule paragraphs_agree)
qed

theorem body_text_normalization_witness:
  "collapse_newlines (''a'' @ replicate 4 (CHR 0x0A) @ ''b'') = ''a'' @ [CHR 0x0A, CHR 0x0A] @ ''b''
   \<and> extract_body_text gap_tag = ''a'' @ [CHR 0x0A, CHR 0x0A] @ ''b''
   \<and> (\<exists>r. extract_post sample_lib page_markup ''https://x.com/blog/my-post/'' = Inr r
          \<and> map_of r ''body_text'' = Some (PStr (join [CHR 0x0A]
                [''Intro'', ''a'', ''b'', ''About'', ''Other'', ''Ext'', ''Frag'', ''Mail'']))
          \<and> map_of r ''word_count'' = Some (PInt 8))
   \<and> tokens_by is_space (join [CHR 0x0A] [''Intro'', ''a'']) = [''Intro'', ''a'']
   \<and> claimed_body_text (Tag ''div'' [] [Tag ''p'' [] [Text ''One two. ''], Tag ''p'' [] [Text ''Three'']])
       = ''One two.'' @ [CHR 0x0A] @ ''Three''
   \<and> extract_body_text (Tag ''div'' [] [Tag ''p'' [] [Text ''One two. ''], Tag ''p'' [] [Text ''Three'']])
       = ''One two.'' @ [CHR 0x0A] @ ''Three''"
proof -
  note inst = body_text_normalization [of page_body "''a''" "''b''" 4 "CHR ''a''" "[]" sample_lib
      page_markup page_soup "''https://x.com/blog/my-post/''"
      "\<lparr>netloc = ''x.com'', path = ''/blog/my-post/''\<rparr>"
      is_space "[]" "CHR 0x0A" "[''Intro'', ''a'']" "''div''" "[]" "[''One two. '', ''Three'']"]
  note run = inst [THEN conjunct2, THEN conjunct2, THEN conjunct1, THEN mp]
  note rec = inst [THEN conjunct2, THEN conjunct2, THEN conjunct2, THEN conjunct2,
      THEN conjunct2, THEN conjunct1, THEN mp]
  note tok = inst [THEN conjunct2, THEN conjunct2, THEN conjunct2, THEN conjunct2,
      THEN conjunct2, THEN conjunct2, THEN conjunct2, THEN conjunct1, THEN mp]
  note agree = inst [THEN conjunct2, THEN conjunct2, THEN conjunct2, THEN conjunct2,
      THEN conjunct2, THEN conjunct2, THEN conjunct2, THEN conjunct2, THEN mp]
  have h1: "(''a'' = [] \<or> \<not> is_nl (last ''a'')) \<and> (''b'' = [] \<or> \<not> is_nl (hd ''b''))"
    by (simp add: is_nl_def)
  have c1: "collapse_newlines ''a'' @ replicate (min 4 2) (CHR 0x0A) @ collapse_newlines ''b''
      = ''a'' @ [CHR 0x0A, CHR 0x0A] @ ''b''"
    by (simp add: is_nl_def numeral_2_eq_2)
  have a: "collapse_newlines (''a'' @ replicate 4 (CHR 0x0A) @ ''b'')
      = ''a'' @ [CHR 0x0A, CHR 0x0A] @ ''b''"
    using run [OF h1] c1 by (rule trans)
  have h3: "is_space (CHR 0x0A) \<and> (\<forall>w \<in> set [''Intro'', ''a'']. w \<noteq> [] \<and> (\<forall>x \<in> set w. \<not> is_space x))"
    by (simp add: char_eval)
  have c: "tokens_by is_space (join [CHR 0x0A] [''Intro'', ''a'']) = [''Intro'', ''a'']"
    using tok [OF h3] .
  obtain r where r: "extract_post sample_lib page_markup ''https://x.com/blog/my-post/'' = Inr r"
    and bt: "map_of r ''body_text'' =
       Some (PStr (extract_body_text (find_content_area page_soup)))"
    and wc: "map_of r ''word_count'' =
       Some (PInt (length (tokens_by is_space
          (extract_body_text (find_content_area page_soup)))))"
    using rec [OF conjI [OF sample_parser_page sample_urlparse_post]] by blast
  have bt': "map_of r ''body_text'' = Some (PStr (join [CHR 0x0A]
                [''Intro'', ''a'', ''b'', ''About'', ''Other'', ''Ext'', ''Frag'', ''Mail'']))"
    using bt by (simp only: page_area page_body_text)
  have "length (tokens_by is_space (extract_body_text page_body)) = 8"
    using page_word_count by (simp only: split_ws_tokens)
  then have wc': "map_of r ''word_count'' = Some (PInt 8)"
    using wc by (simp only: page_area)
  have h4: "interesting_string_types ''div'' = [NavigableString, CData]"
    by (simp add: interesting_string_types_def)
  have e: "extract_body_text (Tag ''div'' [] [Tag ''p'' [] [Text ''One two. ''], Tag ''p'' [] [Text ''Three'']])
       = ''One two.'' @ [CHR 0x0A] @ ''Three''"
    by (simp add: extract_body_text_def text_eval is_nl_def)
  have f: "claimed_body_text (Tag ''div'' [] [Tag ''p'' [] [Text ''One two. ''], Tag ''p'' [] [Text ''Three'']])
       = ''One two.'' @ [CHR 0x0A] @ ''Three''"
    using agree [OF h4] e by simp
  show ?thesis using a r bt' wc' c gap_text e f by blast
qed

text \<open>The claim as the specification words it fails on a paragraph with inline
  markup: the text of \<open><p>Hello <b>World</b>!</p>\<close> with line feeds at the block
  boundaries is the one line \<open>Hello World!\<close>, of two words. The code gives
  three lines, \<open>Hello\<close>, \<open>World\<close> and \<open>!\<close>, and a \<open>word_count\<close> of 3.\<close>

theorem inline_markup_counterexample:
  "html_parser sample_lib inline_markup = Inr inline_soup
   \<and> find_content_area inline_soup = inline_soup
   \<and> claimed_body_text inline_soup = ''Hello World!''
   \<and> length (split_ws (claimed_body_text inline_soup)) = 2
   \<and> extract_body_text inline_soup = ''Hello'' @ [CHR 0x0A] @ ''World'' @ [CHR 0x0A] @ ''!''
   \<and> map_of (projr (extract_post sample_lib inline_markup ''https://x.com/blog/my-post/''))
        ''body_text'' = Some (PStr (''Hello'' @ [CHR 0x0A] @ ''World'' @ [CHR 0x0A] @ ''!''))
   \<and> map_of (projr (extract_post sample_lib inline_markup ''https://x.com/blog/my-post/''))
        ''word_count'' = Some (PInt 3)"
proof -
  have "map_of (projr (extract_post sample_lib inline_markup ''https://x.com/blog/my-post/''))
        ''body_text'' = Some (PStr (''Hello'' @ [CHR 0x0A] @ ''World'' @ [CHR 0x0A] @ ''!''))
   \<and> map_of (projr (extract_post sample_lib inline_markup ''https://x.com/blog/my-post/''))
        ''word_count'' = Some (PInt 3)"
    using inline_word_counts(1)
    by (simp add: extract_post_returns [OF sample_parser_inline sample_urlparse_post]
        inline_area inline_body_text del: split_ws.simps)
  then show ?thesis
    using sample_parser_inline inline_area inline_claimed_text inline_word_counts(2)
      inline_body_text
    by blast
qed

section \<open>The links\<close>

text \<open>
  C5, as the code has it. The anchors of the content area that carry an href
  are taken in document order. An href that is empty or starts with \<open>#\<close> or
  \<open>mailto:\<close> is dropped. Otherwise the link is internal when \<open>domain\<close>, the netloc
  of the request URL (the host with any port and credentials, as written), is
  not empty and occurs in the href, or when the href starts with \<open>/\<close>; else
  external when the href starts with \<open>http\<close>; else dropped. Each list keeps the
  order of the anchors and their duplicates. For a netloc that is not empty
  this is the rule of the specification with the netloc in the place of the
  hostname. The record returned when
  the parser and \<open>urlparse\<close> return carries the two lists.
\<close>

theorem link_classification:
  "extract_links domain area =
     (map link_of (filter (\<lambda>a. classify domain (href_of a) = Internal) (find_all_a_href area)),
      map link_of (filter (\<lambda>a. classify domain (href_of a) = External) (find_all_a_href area)))
   \<and> (domain \<noteq> [] \<longrightarrow> classify domain href = claimed_classify domain href)
   \<and> (html_parser lib markup = Inr soup \<and> urlparse lib url = Some u \<longrightarrow>
        (\<exists>r. extract_post lib markup url = Inr r
           \<and> map_of r ''internal_links'' = Some (PList (map link_dict
                (fst (extract_links (netloc u) (find_content_area soup)))))
           \<and> map_of r ''external_links'' = Some (PList (map link_dict
                (snd (extract_links (netloc u) (find_content_area soup)))))))
   \<and> classify ''x.com'' ''/about'' = Internal
   \<and> classify ''x.com'' ''https://x.com/other'' = Internal
   \<and> classify ''x.com'' ''https://other.com/page'' = External
   \<and> classify ''x.com'' ''#section'' = Dropped
   \<and> classify ''x.com'' ''mailto:a@b.com'' = Dropped"
proof (intro conjI impI)
  show "extract_links domain area =
     (map link_of (filter (\<lambda>a. classify domain (href_of a) = Internal) (find_all_a_href area)),
      map link_of (filter (\<lambda>a. classify domain (href_of a) = External) (find_all_a_href area)))"
    by (rule extract_links_filter)
next
  assume "domain \<noteq> []"
  then show "classify domain href = claimed_classify domain href" by (rule classify_claimed)
next
  assume "html_parser lib markup = Inr soup \<and> urlparse lib url = Some u"
  then show "\<exists>r. extract_post lib markup url = Inr r
           \<and> map_of r ''internal_links'' = Some (PList (map link_dict
                (fst (extract_links (netloc u) (find_content_area soup)))))
           \<and> map_of r ''external_links'' = Some (PList (map link_dict
                (snd (extract_links (netloc u) (find_content_area soup)))))"
    by (simp add: extract_post_returns)
qed (simp_all add: classify_def)

theorem link_classification_witness:
  "(\<exists>r. extract_post sample_lib page_markup ''https://x.com/blog/my-post/'' = Inr r
      \<and> map_of r ''internal_links'' = Some (PList (map link_dict
            [(''About'', ''/about''), (''Other'', ''https://x.com/other'')]))
      \<and> map_of r ''external_links'' = Some (PList (map link_dict
            [(''Ext'', ''https://other.com/page'')])))
   \<and> classify ''x.com'' ''https://x.com/other'' = claimed_classify ''x.com'' ''https://x.com/other''"
proof -
  note inst = link_classification [of "''x.com''" page_body "''https://x.com/other''" sample_lib
      page_markup page_soup "''https://x.com/blog/my-post/''"
      "\<lparr>netloc = ''x.com'', path = ''/blog/my-post/''\<rparr>"]
  note agree = inst [THEN conjunct2, THEN conjunct1, THEN mp]
  note rec = inst [THEN conjunct2, THEN conjunct2, THEN conjunct1, THEN mp]
  have ne: "''x.com'' \<noteq> []" by simp
  obtain r where r: "extract_post sample_lib page_markup ''https://x.com/blog/my-post/'' = Inr r"
    and i: "map_of r ''internal_links'' = Some (PList (map link_dict
        (fst (extract_links (netloc \<lparr>netloc = ''x.com'', path = ''/blog/my-post/''\<rparr>)
           (find_content_area page_soup)))))"
    and e: "map_of r ''external_links'' = Some (PList (map link_dict
        (snd (extract_links (netloc \<lparr>netloc = ''x.com'', path = ''/blog/my-post/''\<rparr>)
           (find_content_area page_soup)))))"
    using rec [OF conjI [OF sample_parser_page sample_urlparse_post]] by blast
  have n: "netloc \<lparr>netloc = ''x.com'', path = ''/blog/my-post/''\<rparr> = ''x.com''" by simp
  have i': "map_of r ''internal_links'' = Some (PList (map link_dict
            [(''About'', ''/about''), (''Other'', ''https://x.com/other'')]))"
    using i unfolding n page_area page_links by simp
  have e': "map_of r ''external_links'' = Some (PList (map link_dict
            [(''Ext'', ''https://other.com/page'')]))"
    using e unfolding n page_area page_links by simp
  show ?thesis using r i' e' agree [OF ne] by blast
qed

text \<open>The claim as the specification words it fails for a request URL with a
  port: the href \<open>https://x.com/other\<close> contains the hostname \<open>x.com\<close> of
  \<open>https://x.com:8080/post\<close>, and the code lists the link as external, since the
  href does not contain the netloc \<open>x.com:8080\<close>.\<close>

theorem hostname_port_counterexample:
  "urlparse sample_lib ''https://x.com:8080/post''
     = Some \<lparr>netloc = ''x.com:8080'', path = ''/post''\<rparr>
   \<and> hostname_of ''x.com:8080'' = ''x.com''
   \<and> claimed_classify ''x.com'' ''https://x.com/other'' = Internal
   \<and> map_of (projr (extract_post sample_lib page_markup ''https://x.com:8080/post''))
        ''internal_links'' = Some (PList (map link_dict [(''About'', ''/about'')]))
   \<and> map_of (projr (extract_post sample_lib page_markup ''https://x.com:8080/post''))
        ''external_links'' = Some (PList (map link_dict
           [(''Other'', ''https://x.com/other''), (''Ext'', ''https://other.com/page'')]))"
proof -
  have c: "claimed_classify ''x.com'' ''https://x.com/other'' = Internal"
    by (simp add: claimed_classify_def)
  have n: "netloc \<lparr>netloc = ''x.com:8080'', path = ''/post''\<rparr> = ''x.com:8080''" by simp
  have "map_of (projr (extract_post sample_lib page_markup ''https://x.com:8080/post''))
        ''internal_links'' = Some (PList (map link_dict [(''About'', ''/about'')]))
   \<and> map_of (projr (extract_post sample_lib page_markup ''https://x.com:8080/post''))
        ''external_links'' = Some (PList (map link_dict
           [(''Other'', ''https://x.com/other''), (''Ext'', ''https://other.com/page'')]))"
    unfolding extract_post_returns [OF sample_parser_page sample_urlparse_port] n page_area page_links_port
    by simp
  then show ?thesis using sample_urlparse_port hostname_port c by blast
qed

text \<open>
  C10. One anchor is one step of the loop, and a step leaves both lists as they
  are, or appends one link to the internal list, or appends one link to the
  external list: never to both. So the two lists together are no longer than
  the list of anchors, and no href stands in both.
\<close>

theorem link_lists_disjoint:
  "(link_step domain (i, e) a = (i, e)
     \<or> (\<exists>l. link_step domain (i, e) a = (i @ [l], e))
     \<or> (\<exists>l. link_step domain (i, e) a = (i, e @ [l])))
   \<and> length (fst (extract_links domain area)) + length (snd (extract_links domain area))
        \<le> length (find_all_a_href area)
   \<and> snd ` set (fst (extract_links domain area))
        \<inter> snd ` set (snd (extract_links domain area)) = {}"
  using link_step_cases extract_links_length extract_links_disjoint by blast

theorem link_lists_disjoint_witness:
  "length (find_all_a_href page_body) = 5
   \<and> length (fst (extract_links ''x.com'' page_body)) = 2
   \<and> length (snd (extract_links ''x.com'' page_body)) = 1
   \<and> length (fst (extract_links ''x.com'' page_body))
       + length (snd (extract_links ''x.com'' page_body)) \<le> length (find_all_a_href page_body)
   \<and> snd ` set (fst (extract_links ''x.com'' page_body))
        \<inter> snd ` set (snd (extract_links ''x.com'' page_body)) = {}"
proof -
  note inst = link_lists_disjoint [of "''x.com''" "[]" "[]" page_body page_body]
  have "length (find_all_a_href page_body) = 5" by (simp add: page_anchors)
  moreover have "length (fst (extract_links ''x.com'' page_body)) = 2"
    and "length (snd (extract_links ''x.com'' page_body)) = 1"
    by (simp_all add: page_links)
  ultimately show ?thesis using inst by blast
qed

section \<open>The content area\<close>








end
